theory Spec2Isabelle
  imports Complex_Main
begin

section \<open>Ant colony optimisation for the travelling salesman problem (main.go)\<close>

subsection \<open>Values of type float64\<close>

text \<open>
  A float64 is a finite number, one of the two infinities, or NaN. In the operations of
  this section finite values are exact reals: rounding, overflow of finite arithmetic and
  the sign of zero are left out (every zero is the positive zero; the divisors of the
  program are sums and square roots, which are never the negative zero). Division by
  zero, the infinities and NaN follow IEEE 754, as Go's float64 does: they decide what the
  selection loop does when its denominator vanishes. The rounded operations, which decide
  what repeated evaporation does to the store, come in the section on binary64
  arithmetic.
\<close>

datatype float64 = Fin real | PInf | NInf | NaN

fun fadd :: "float64 \<Rightarrow> float64 \<Rightarrow> float64" where
  "fadd NaN _ = NaN"
| "fadd _ NaN = NaN"
| "fadd (Fin a) (Fin b) = Fin (a + b)"
| "fadd (Fin a) PInf = PInf"
| "fadd (Fin a) NInf = NInf"
| "fadd PInf (Fin b) = PInf"
| "fadd NInf (Fin b) = NInf"
| "fadd PInf PInf = PInf"
| "fadd NInf NInf = NInf"
| "fadd PInf NInf = NaN"
| "fadd NInf PInf = NaN"

fun fmul :: "float64 \<Rightarrow> float64 \<Rightarrow> float64" where
  "fmul NaN _ = NaN"
| "fmul _ NaN = NaN"
| "fmul (Fin a) (Fin b) = Fin (a * b)"
| "fmul (Fin a) PInf = (if a = 0 then NaN else if 0 < a then PInf else NInf)"
| "fmul (Fin a) NInf = (if a = 0 then NaN else if 0 < a then NInf else PInf)"
| "fmul PInf (Fin b) = (if b = 0 then NaN else if 0 < b then PInf else NInf)"
| "fmul NInf (Fin b) = (if b = 0 then NaN else if 0 < b then NInf else PInf)"
| "fmul PInf PInf = PInf"
| "fmul NInf NInf = PInf"
| "fmul PInf NInf = NInf"
| "fmul NInf PInf = NInf"

fun fdiv :: "float64 \<Rightarrow> float64 \<Rightarrow> float64" where
  "fdiv NaN _ = NaN"
| "fdiv _ NaN = NaN"
| "fdiv (Fin a) (Fin b) =
     (if b = 0 then (if a = 0 then NaN else if 0 < a then PInf else NInf)
      else Fin (a / b))"
| "fdiv (Fin a) PInf = Fin 0"
| "fdiv (Fin a) NInf = Fin 0"
| "fdiv PInf (Fin b) = (if 0 \<le> b then PInf else NInf)"
| "fdiv NInf (Fin b) = (if 0 \<le> b then NInf else PInf)"
| "fdiv PInf PInf = NaN"
| "fdiv PInf NInf = NaN"
| "fdiv NInf PInf = NaN"
| "fdiv NInf NInf = NaN"

text \<open>The comparison \<open>x < y\<close>: false as soon as one side is NaN.\<close>

fun flt :: "float64 \<Rightarrow> float64 \<Rightarrow> bool" where
  "flt NaN _ = False"
| "flt _ NaN = False"
| "flt (Fin a) (Fin b) = (a < b)"
| "flt (Fin a) PInf = True"
| "flt (Fin a) NInf = False"
| "flt PInf _ = False"
| "flt NInf (Fin b) = True"
| "flt NInf PInf = True"
| "flt NInf NInf = False"

text \<open>
  \<open>math.Pow(x, y)\<close> for a finite exponent \<open>y\<close>, with the special cases of Go's
  documentation: \<open>Pow(x, 0) = 1\<close> for every \<open>x\<close>, \<open>Pow(NaN, y) = NaN\<close>,
  \<open>Pow(+Inf, y)\<close> is \<open>+Inf\<close> for \<open>y > 0\<close> and \<open>0\<close> for \<open>y < 0\<close>,
  \<open>Pow(0, y)\<close> is \<open>0\<close> for \<open>y > 0\<close> and \<open>+Inf\<close> for \<open>y < 0\<close>,
  \<open>Pow(-Inf, y) = Pow(-0, -y)\<close>, and a negative finite base gives NaN unless the
  exponent is an integer.
\<close>

definition is_int :: "real \<Rightarrow> bool" where
  "is_int y = (y = of_int \<lfloor>y\<rfloor>)"

definition int_pow :: "real \<Rightarrow> real \<Rightarrow> real" where
  "int_pow a y = (if 0 \<le> y then a ^ nat \<lfloor>y\<rfloor> else 1 / a ^ nat \<lfloor>- y\<rfloor>)"

fun fpow :: "float64 \<Rightarrow> real \<Rightarrow> float64" where
  "fpow NaN y = (if y = 0 then Fin 1 else NaN)"
| "fpow PInf y = (if y = 0 then Fin 1 else if 0 < y then PInf else Fin 0)"
| "fpow NInf y =
     (if y = 0 then Fin 1
      else if 0 < y then (if is_int y \<and> odd \<lfloor>y\<rfloor> then NInf else PInf)
      else Fin 0)"
| "fpow (Fin a) y =
     (if y = 0 then Fin 1
      else if a = 0 then (if 0 < y then Fin 0 else PInf)
      else if 0 < a then Fin (a powr y)
      else if is_int y then Fin (int_pow a y)
      else NaN)"

subsection \<open>Results: a value, a run-time panic, or a loop that has not ended\<close>

text \<open>
  Go panics on an index out of range, on \<open>rand.Intn(n)\<close> with \<open>n \<le> 0\<close> and on an
  integer remainder by zero. The selection loop of \<open>goToNewCity\<close> has no bound, so it
  runs on fuel (the number of iterations allowed): \<open>OutOfFuel\<close> for every amount of fuel
  means the loop never ends.
\<close>

datatype 'a result = Ok 'a | Panic | OutOfFuel

fun rbind :: "'a result \<Rightarrow> ('a \<Rightarrow> 'b result) \<Rightarrow> 'b result" where
  "rbind (Ok v) f = f v"
| "rbind Panic f = Panic"
| "rbind OutOfFuel f = OutOfFuel"

definition idx :: "'a list \<Rightarrow> nat \<Rightarrow> 'a result" where
  "idx xs i = (if i < length xs then Ok (xs ! i) else Panic)"

definition upd :: "'a list \<Rightarrow> nat \<Rightarrow> 'a \<Rightarrow> 'a list result" where
  "upd xs i v = (if i < length xs then Ok (xs[i := v]) else Panic)"

definition idx2 :: "'a list list \<Rightarrow> nat \<Rightarrow> nat \<Rightarrow> 'a result" where
  "idx2 m i j = rbind (idx m i) (\<lambda>row. idx row j)"

definition upd2 :: "'a list list \<Rightarrow> nat \<Rightarrow> nat \<Rightarrow> 'a \<Rightarrow> 'a list list result" where
  "upd2 m i j v = rbind (idx m i) (\<lambda>row. rbind (upd row j v) (\<lambda>row'. Ok (m[i := row'])))"

subsection \<open>Data: cities, ants, the package variables\<close>

text \<open>A city holds two finite coordinates (the fields \<open>x\<close> and \<open>y\<close> of the source).\<close>

record city =
  city_x :: real
  city_y :: real

record ant_t =
  tabulist :: "nat list"
  currentCity :: nat
  nextCity :: nat
  tour :: "nat list"
  tourIndex :: nat
  tourlength :: float64

text \<open>
  The tunable package variables, never assigned after their declaration (\<open>times_n\<close> is
  the variable \<open>times\<close>). The source's values are those of \<open>defaults\<close>.
\<close>

record config =
  rho :: real
  qval :: real
  alpha :: real
  beta :: real
  numAnts :: nat
  times_n :: nat
  tours :: nat

definition defaults :: config where
  "defaults = \<lparr>rho = 6 / 10, qval = 1, alpha = 8 / 10, beta = 8 / 10,
     numAnts = 10, times_n = 10, tours = 500\<rparr>"

text \<open>
  The global random source of \<open>math/rand\<close>: the values \<open>rand.Float64()\<close> returns, in
  the order of the calls, and those behind \<open>rand.Intn\<close>, each reduced to the range asked
  for.
\<close>

record rng =
  floats :: "nat \<Rightarrow> real"
  fpos :: nat
  ints :: "nat \<Rightarrow> nat"
  ipos :: nat

definition rand_Float64 :: "rng \<Rightarrow> real \<times> rng" where
  "rand_Float64 r = (floats r (fpos r), r\<lparr>fpos := Suc (fpos r)\<rparr>)"

definition rand_Intn :: "rng \<Rightarrow> nat \<Rightarrow> (nat \<times> rng) result" where
  "rand_Intn r n = (if n = 0 then Panic else Ok (ints r (ipos r) mod n, r\<lparr>ipos := Suc (ipos r)\<rparr>))"

text \<open>The mutable package variables; \<open>besttour\<close> is \<open>None\<close> while the slice is nil.\<close>

record state =
  ants :: "ant_t list"
  cities :: "city list"
  tauMatrix :: "float64 list list"
  adjMatrix :: "float64 list list"
  besttour :: "nat list option"
  currentIndex :: nat
  numCities :: nat
  rand :: rng

text \<open>The package variables when \<open>main\<close> starts, over a given random source.\<close>

definition start_state :: "rng \<Rightarrow> state" where
  "start_state r = \<lparr>ants = [], cities = [], tauMatrix = [], adjMatrix = [], besttour = None,
     currentIndex = 0, numCities = 0, rand = r\<rparr>"

text \<open>A random source for examples: the given draws, then zeros.\<close>

definition rng_of :: "real list \<Rightarrow> nat list \<Rightarrow> rng" where
  "rng_of fs ns = \<lparr>floats = (\<lambda>k. if k < length fs then fs ! k else 0), fpos = 0,
     ints = (\<lambda>k. if k < length ns then ns ! k else 0), ipos = 0\<rparr>"

subsection \<open>The distance model: calEdge, initGraph\<close>

text \<open>
  \<open>math.Pow(math.Pow(c2.y-c1.y, 2) + math.Pow(c2.y-c1.y, 2), 0.5)\<close>: both squares
  are of the difference of the \<open>y\<close> coordinates.
\<close>

definition calEdge :: "city \<Rightarrow> city \<Rightarrow> float64" where
  "calEdge c1 c2 =
     fpow (fadd (fpow (Fin (city_y c2 - city_y c1)) 2) (fpow (Fin (city_y c2 - city_y c1)) 2)) (1 / 2)"

text \<open>\<open>initGraph\<close>, from the list of cities that \<open>readFile\<close> returns.\<close>

definition initGraph :: "city list \<Rightarrow> state \<Rightarrow> state" where
  "initGraph cs st =
     st\<lparr>cities := cs, numCities := length cs,
        adjMatrix := map (\<lambda>i. map (\<lambda>j. calEdge (cs ! i) (cs ! j)) [0..<length cs]) [0..<length cs]\<rparr>"

subsection \<open>The pheromone store: initTrail, evaporatePheromone, intensifyTrail\<close>

definition initTrail :: "state \<Rightarrow> state" where
  "initTrail st =
     st\<lparr>tauMatrix :=
          map (\<lambda>i. map (\<lambda>j. if i \<noteq> j then Fin 1 else Fin 0) [0..<numCities st])
            [0..<numCities st]\<rparr>"

text \<open>
  One cell of \<open>evaporatePheromone\<close>: the entry times \<open>1.0 - rho\<close>, and 1.0 in its
  place when that product is below 0.
\<close>

definition evap_entry :: "config \<Rightarrow> float64 \<Rightarrow> float64" where
  "evap_entry c t =
     (let t' = fmul t (Fin (1 - rho c)) in if flt t' (Fin 0) then Fin 1 else t')"

fun evap_cells :: "config \<Rightarrow> float64 list list \<Rightarrow> nat \<Rightarrow> nat list \<Rightarrow> float64 list list result" where
  "evap_cells c m from [] = Ok m"
| "evap_cells c m from (to # tos) =
     rbind (idx2 m from to) (\<lambda>t.
     rbind (upd2 m from to (evap_entry c t)) (\<lambda>m'.
     evap_cells c m' from tos))"

fun evap_rows :: "config \<Rightarrow> nat \<Rightarrow> float64 list list \<Rightarrow> nat list \<Rightarrow> float64 list list result" where
  "evap_rows c n m [] = Ok m"
| "evap_rows c n m (from # froms) =
     rbind (evap_cells c m from [0..<n]) (\<lambda>m'. evap_rows c n m' froms)"

definition evaporatePheromone :: "config \<Rightarrow> state \<Rightarrow> state result" where
  "evaporatePheromone c st =
     rbind (evap_rows c (numCities st) (tauMatrix st) [0..<numCities st]) (\<lambda>m.
     Ok (st\<lparr>tauMatrix := m\<rparr>))"

text \<open>
  \<open>intensifyTrail\<close>: for ant \<open>i\<close> and position \<open>k\<close> of its tour, the edge from
  \<open>tour[k]\<close> to \<open>tour[(k+1) % numCities]\<close> gains \<open>qval / tourlength\<close>, and the mirror
  entry is set to the new value.
\<close>

fun intensify_edges ::
  "config \<Rightarrow> state \<Rightarrow> nat \<Rightarrow> float64 list list \<Rightarrow> nat list \<Rightarrow> float64 list list result" where
  "intensify_edges c st i m [] = Ok m"
| "intensify_edges c st i m (k # ks) =
     rbind (idx (ants st) i) (\<lambda>ant.
     rbind (idx (tour ant) k) (\<lambda>from.
     rbind (idx (tour ant) ((k + 1) mod numCities st)) (\<lambda>to.
     let deltatau = fdiv (Fin (qval c)) (tourlength ant) in
     rbind (idx2 m from to) (\<lambda>t.
     rbind (upd2 m from to (fadd t deltatau)) (\<lambda>m1.
     rbind (idx2 m1 from to) (\<lambda>t1.
     rbind (upd2 m1 to from t1) (\<lambda>m2.
     intensify_edges c st i m2 ks)))))))"

fun intensify_ants ::
  "config \<Rightarrow> state \<Rightarrow> float64 list list \<Rightarrow> nat list \<Rightarrow> float64 list list result" where
  "intensify_ants c st m [] = Ok m"
| "intensify_ants c st m (i # is) =
     rbind (intensify_edges c st i m [0..<numCities st]) (\<lambda>m'. intensify_ants c st m' is)"

definition intensifyTrail :: "config \<Rightarrow> state \<Rightarrow> state result" where
  "intensifyTrail c st =
     rbind (intensify_ants c st (tauMatrix st) [0..<numAnts c]) (\<lambda>m.
     Ok (st\<lparr>tauMatrix := m\<rparr>))"

subsection \<open>Ants: initAnts, goToNewCity, moveAnts\<close>

text \<open>
  \<open>initAnts\<close>: \<open>numAnts\<close> fresh ants, each with an all-zero tabu list and tour of
  \<open>numCities\<close> entries and a random current city. The current city is neither marked in
  the tabu list nor written to the tour.
\<close>

fun new_ants :: "nat \<Rightarrow> nat \<Rightarrow> rng \<Rightarrow> (ant_t list \<times> rng) result" where
  "new_ants 0 n r = Ok ([], r)"
| "new_ants (Suc k) n r =
     rbind (rand_Intn r n) (\<lambda>(s, r1).
     rbind (new_ants k n r1) (\<lambda>(as, r2).
     Ok (\<lparr>tabulist = replicate n 0, currentCity = s, nextCity = 0, tour = replicate n 0,
          tourIndex = 0, tourlength = Fin 0\<rparr> # as, r2)))"

definition initAnts :: "config \<Rightarrow> state \<Rightarrow> state result" where
  "initAnts c st =
     rbind (new_ants (numAnts c) (numCities st) (rand st)) (\<lambda>(as, r).
     Ok (st\<lparr>ants := as, rand := r\<rparr>))"

text \<open>The desirability \<open>Pow(tau, alpha) * Pow(1.0/adj, beta)\<close> of an edge.\<close>

definition score :: "config \<Rightarrow> float64 \<Rightarrow> float64 \<Rightarrow> float64" where
  "score c t a = fmul (fpow t (alpha c)) (fpow (fdiv (Fin 1) a) (beta c))"

text \<open>
  The first loop of \<open>goToNewCity\<close>: the sum of the scores of the cities that are not
  the current one, not in the tabu list, and whose pheromone and cost are both not 0.
\<close>

fun denom_loop :: "config \<Rightarrow> state \<Rightarrow> ant_t \<Rightarrow> nat \<Rightarrow> float64 \<Rightarrow> nat list \<Rightarrow> float64 result" where
  "denom_loop c st ant from denom [] = Ok denom"
| "denom_loop c st ant from denom (to # tos) =
     (if from \<noteq> to then
        rbind (idx (tabulist ant) to) (\<lambda>tb.
        if tb = 0 then
          rbind (idx2 (tauMatrix st) from to) (\<lambda>t.
          if t \<noteq> Fin 0 then
            rbind (idx2 (adjMatrix st) from to) (\<lambda>a.
            if a \<noteq> Fin 0 then denom_loop c st ant from (fadd denom (score c t a)) tos
            else denom_loop c st ant from denom tos)
          else denom_loop c st ant from denom tos)
        else denom_loop c st ant from denom tos)
      else denom_loop c st ant from denom tos)"

text \<open>\<open>to = (to + 1) % numCities\<close>: the remainder panics when \<open>numCities\<close> is 0.\<close>

definition next_to :: "state \<Rightarrow> nat \<Rightarrow> nat result" where
  "next_to st to = (if numCities st = 0 then Panic else Ok ((to + 1) mod numCities st))"

text \<open>
  The second loop of \<open>goToNewCity\<close>, \<open>for { ... }\<close>, on fuel: a city that is not the
  current one and not in the tabu list is taken when a fresh \<open>rand.Float64()\<close> is below
  \<open>p = score / denom\<close>; otherwise the scan moves to the next index, wrapping around.
\<close>

fun select_loop ::
  "nat \<Rightarrow> config \<Rightarrow> state \<Rightarrow> ant_t \<Rightarrow> nat \<Rightarrow> float64 \<Rightarrow> nat \<Rightarrow> rng \<Rightarrow> (nat \<times> rng) result" where
  "select_loop 0 c st ant from denom to r = OutOfFuel"
| "select_loop (Suc fuel) c st ant from denom to r =
     (if from \<noteq> to then
        rbind (idx (tabulist ant) to) (\<lambda>tb.
        if tb = 0 then
          rbind (idx2 (tauMatrix st) from to) (\<lambda>t.
          rbind (idx2 (adjMatrix st) from to) (\<lambda>a.
          let p = fdiv (score c t a) denom; (u, r1) = rand_Float64 r in
          if flt (Fin u) p then Ok (to, r1)
          else rbind (next_to st to) (\<lambda>to1. select_loop fuel c st ant from denom to1 r1)))
        else rbind (next_to st to) (\<lambda>to1. select_loop fuel c st ant from denom to1 r))
      else rbind (next_to st to) (\<lambda>to1. select_loop fuel c st ant from denom to1 r))"

text \<open>
  The end of \<open>goToNewCity\<close> (\<open>advance\<close>): the chosen city is marked, written to the
  tour at \<open>tourIndex\<close>, and the cost of the edge from the current city is added to the
  tour length; when \<open>tourIndex\<close> has reached \<open>numCities\<close>, the closing edge from
  \<open>tour[numCities-1]\<close> to \<open>tour[0]\<close> is added (\<open>close_tour\<close>).
\<close>

definition close_tour :: "state \<Rightarrow> ant_t \<Rightarrow> ant_t result" where
  "close_tour st ant =
     (if tourIndex ant = numCities st then
        rbind (idx (tour ant) (numCities st - 1)) (\<lambda>l.
        rbind (idx (tour ant) 0) (\<lambda>f.
        rbind (idx2 (adjMatrix st) l f) (\<lambda>cl.
        Ok (ant\<lparr>tourlength := fadd (tourlength ant) cl\<rparr>))))
      else Ok ant)"

definition advance :: "state \<Rightarrow> ant_t \<Rightarrow> nat \<Rightarrow> ant_t result" where
  "advance st ant to =
     rbind (upd (tabulist ant) to 1) (\<lambda>tabu1.
     rbind (upd (tour ant) (tourIndex ant) to) (\<lambda>tour1.
     rbind (idx2 (adjMatrix st) (currentCity ant) to) (\<lambda>a.
     rbind (close_tour st (ant\<lparr>nextCity := to, tabulist := tabu1, tour := tour1,
                  tourIndex := tourIndex ant + 1, tourlength := fadd (tourlength ant) a\<rparr>)) (\<lambda>ant2.
     Ok (ant2\<lparr>currentCity := nextCity ant2\<rparr>)))))"

definition goToNewCity :: "nat \<Rightarrow> config \<Rightarrow> state \<Rightarrow> ant_t \<times> rng \<Rightarrow> (ant_t \<times> rng) result" where
  "goToNewCity fuel c st ar =
     (case ar of (ant, r) \<Rightarrow>
        rbind (denom_loop c st ant (currentCity ant) (Fin 0) [0..<numCities st]) (\<lambda>denom.
        rbind (select_loop fuel c st ant (currentCity ant) denom 0 r) (\<lambda>(to, r1).
        rbind (advance st ant to) (\<lambda>ant1. Ok (ant1, r1)))))"

text \<open>\<open>moveAnts\<close>: every ant makes \<open>numCities\<close> calls of \<open>goToNewCity\<close>.\<close>

fun move_ant :: "nat \<Rightarrow> config \<Rightarrow> state \<Rightarrow> nat \<Rightarrow> ant_t \<times> rng \<Rightarrow> (ant_t \<times> rng) result" where
  "move_ant fuel c st 0 ar = Ok ar"
| "move_ant fuel c st (Suc k) ar = rbind (goToNewCity fuel c st ar) (move_ant fuel c st k)"

fun move_all :: "nat \<Rightarrow> config \<Rightarrow> state \<Rightarrow> ant_t list \<Rightarrow> rng \<Rightarrow> (ant_t list \<times> rng) result" where
  "move_all fuel c st [] r = Ok ([], r)"
| "move_all fuel c st (ant # rest) r =
     rbind (move_ant fuel c st (numCities st) (ant, r)) (\<lambda>(ant1, r1).
     rbind (move_all fuel c st rest r1) (\<lambda>(rest1, r2).
     Ok (ant1 # rest1, r2)))"

definition moveAnts :: "nat \<Rightarrow> config \<Rightarrow> state \<Rightarrow> state result" where
  "moveAnts fuel c st =
     rbind (move_all fuel c st (ants st) (rand st)) (\<lambda>(as, r).
     Ok (st\<lparr>ants := as, rand := r,
           currentIndex := (if ants st = [] then currentIndex st else numCities st)\<rparr>))"

subsection \<open>Statistics: calculateAvg, calculateBest\<close>

text \<open>\<open>calculateAvg\<close>: the sum of the ants' tour lengths, divided by \<open>float64(times)\<close>.\<close>

definition calculateAvg :: "config \<Rightarrow> state \<Rightarrow> float64 result" where
  "calculateAvg c st =
     rbind (idx (ants st) 0) (\<lambda>a0.
     Ok (fdiv (foldl fadd (Fin 0) (map tourlength (ants st))) (Fin (real (times_n c)))))"

text \<open>Go's \<open>copy(dst, src)\<close>: the first \<open>min (len dst) (len src)\<close> elements are replaced.\<close>

definition copy_slice :: "'a list \<Rightarrow> 'a list \<Rightarrow> 'a list" where
  "copy_slice dst src = take (length dst) src @ drop (length src) dst"

fun best_loop :: "ant_t list \<Rightarrow> float64 \<Rightarrow> nat list \<Rightarrow> float64 \<times> nat list" where
  "best_loop [] bestlength bt = (bestlength, bt)"
| "best_loop (a # as) bestlength bt =
     (if flt (tourlength a) bestlength then best_loop as (tourlength a) (copy_slice bt (tour a))
      else best_loop as bestlength bt)"

definition calculateBest :: "config \<Rightarrow> state \<Rightarrow> (float64 \<times> state) result" where
  "calculateBest c st =
     rbind (idx (ants st) 0) (\<lambda>a0.
     let bt0 = (case besttour st of
                  None \<Rightarrow> copy_slice (replicate (numCities st) 0) (tour a0)
                | Some bt \<Rightarrow> bt);
         (bestlength, bt1) = best_loop (ants st) (tourlength a0) bt0
     in Ok (bestlength, st\<lparr>besttour := Some bt1\<rparr>))"

subsection \<open>The run: main\<close>

text \<open>
  The inner loop of \<open>main\<close>, \<open>n\<close> more rounds: the two running sums are
  \<open>besttourlens[i]\<close> and \<open>avgtourlens[i]\<close>.
\<close>

fun rounds :: "nat \<Rightarrow> config \<Rightarrow> nat \<Rightarrow> state \<Rightarrow> float64 \<Rightarrow> float64 \<Rightarrow> (state \<times> float64 \<times> float64) result" where
  "rounds fuel c 0 st bl al = Ok (st, bl, al)"
| "rounds fuel c (Suc n) st bl al =
     rbind (initAnts c st) (\<lambda>st1.
     rbind (moveAnts fuel c st1) (\<lambda>st2.
     rbind (intensifyTrail c st2) (\<lambda>st3.
     rbind (calculateBest c st3) (\<lambda>(b, st4).
     rbind (calculateAvg c st4) (\<lambda>a.
     rounds fuel c n st4 (fadd bl b) (fadd al a))))))"

text \<open>What one pass of the outer loop prints and stores.\<close>

record summary =
  optimal_path :: "nat list option"
  avgavg :: float64
  avgbest :: float64

text \<open>
  One pass of the outer loop of \<open>main\<close>: \<open>besttour = nil\<close>, \<open>tours\<close> rounds,
  one evaporation, the two means.
\<close>

definition one_experiment :: "nat \<Rightarrow> config \<Rightarrow> state \<Rightarrow> (state \<times> summary) result" where
  "one_experiment fuel c st =
     rbind (rounds fuel c (tours c) (st\<lparr>besttour := None\<rparr>) (Fin 0) (Fin 0)) (\<lambda>(st1, bl, al).
     rbind (evaporatePheromone c st1) (\<lambda>st2.
     Ok (st2, \<lparr>optimal_path = besttour st2,
               avgavg = fdiv al (Fin (real (tours c))),
               avgbest = fdiv bl (Fin (real (tours c)))\<rparr>)))"

fun experiments :: "nat \<Rightarrow> config \<Rightarrow> nat \<Rightarrow> state \<Rightarrow> (state \<times> summary list) result" where
  "experiments fuel c 0 st = Ok (st, [])"
| "experiments fuel c (Suc k) st =
     rbind (one_experiment fuel c st) (\<lambda>(st1, s).
     rbind (experiments fuel c k st1) (\<lambda>(st2, ss).
     Ok (st2, s # ss)))"

text \<open>
  \<open>main\<close> up to the plot: \<open>initGraph\<close>, one \<open>initTrail\<close>, then \<open>times\<close> passes of
  the outer loop.
\<close>

definition main_run :: "nat \<Rightarrow> config \<Rightarrow> city list \<Rightarrow> rng \<Rightarrow> (state \<times> summary list) result" where
  "main_run fuel c cs r =
     experiments fuel c (times_n c) (initTrail (initGraph cs (start_state r)))"

subsection \<open>Binary64 arithmetic\<close>

text \<open>
  The operations of IEEE 754 binary64, which Go's float64 follows: the exact result,
  rounded to the nearest value with a 53-bit significand and an exponent from -1022 to
  1023, a tie going to the even significand. \<open>rhe\<close> rounds a real to the nearest
  integer, a tie to the even one. In \<open>round64_pos\<close>, for a positive real, \<open>e\<close> is its
  binary exponent, held at -1022 from below, and \<open>u\<close> the spacing of the float64 values
  at that exponent: below 2^(-1022) the spacing stays at 2^(-1074) (gradual underflow),
  so that a result below 2^(-1075) rounds to 0. A result that rounds to 2^1024 or more is
  an infinity.
\<close>

definition rhe :: "real \<Rightarrow> int" where
  "rhe q = (let f = \<lfloor>q\<rfloor>; d = q - of_int f in
            if d < 1 / 2 then f else if 1 / 2 < d then f + 1 else if even f then f else f + 1)"

definition round64_pos :: "real \<Rightarrow> float64" where
  "round64_pos a =
     (let e = max \<lfloor>log 2 a\<rfloor> (- 1022);
          u = 2 powr (of_int e - 52);
          y = of_int (rhe (a / u)) * u
      in if 2 ^ 1024 \<le> y then PInf else Fin y)"

fun fneg :: "float64 \<Rightarrow> float64" where
  "fneg (Fin a) = Fin (- a)"
| "fneg PInf = NInf"
| "fneg NInf = PInf"
| "fneg NaN = NaN"

definition round64 :: "real \<Rightarrow> float64" where
  "round64 x = (if x = 0 then Fin 0 else if 0 < x then round64_pos x else fneg (round64_pos (- x)))"

text \<open>
  A variable of the source holds \<open>round64\<close> of the decimal value it is declared with;
  \<open>+\<close>, \<open>-\<close>, \<open>*\<close> and \<open>/\<close> on float64 are the operations of the first section,
  rounded.
\<close>

fun rnd :: "float64 \<Rightarrow> float64" where
  "rnd (Fin x) = round64 x"
| "rnd PInf = PInf"
| "rnd NInf = NInf"
| "rnd NaN = NaN"

definition fadd64 :: "float64 \<Rightarrow> float64 \<Rightarrow> float64" where
  "fadd64 a b = rnd (fadd a b)"

definition fsub64 :: "float64 \<Rightarrow> float64 \<Rightarrow> float64" where
  "fsub64 a b = rnd (fadd a (fneg b))"

definition fmul64 :: "float64 \<Rightarrow> float64 \<Rightarrow> float64" where
  "fmul64 a b = rnd (fmul a b)"

definition fdiv64 :: "float64 \<Rightarrow> float64 \<Rightarrow> float64" where
  "fdiv64 a b = rnd (fdiv a b)"

subsection \<open>The pheromone store in binary64 arithmetic\<close>

text \<open>
  \<open>evaporatePheromone\<close> and \<open>intensifyTrail\<close> once more, loop for loop, with every
  operation rounded: \<open>rho\<close> and \<open>qval\<close> are float64 variables, \<open>1.0 - rho\<close> is
  computed at each cell, and \<open>deltatau := qval / tourlength\<close> and
  \<open>tauMatrix[from][to] += deltatau\<close> round their results.
\<close>

definition evap_entry64 :: "config \<Rightarrow> float64 \<Rightarrow> float64" where
  "evap_entry64 c t =
     (let t' = fmul64 t (fsub64 (Fin 1) (round64 (rho c))) in if flt t' (Fin 0) then Fin 1 else t')"

fun evap_cells64 :: "config \<Rightarrow> float64 list list \<Rightarrow> nat \<Rightarrow> nat list \<Rightarrow> float64 list list result" where
  "evap_cells64 c m from [] = Ok m"
| "evap_cells64 c m from (to # tos) =
     rbind (idx2 m from to) (\<lambda>t.
     rbind (upd2 m from to (evap_entry64 c t)) (\<lambda>m'.
     evap_cells64 c m' from tos))"

fun evap_rows64 :: "config \<Rightarrow> nat \<Rightarrow> float64 list list \<Rightarrow> nat list \<Rightarrow> float64 list list result" where
  "evap_rows64 c n m [] = Ok m"
| "evap_rows64 c n m (from # froms) =
     rbind (evap_cells64 c m from [0..<n]) (\<lambda>m'. evap_rows64 c n m' froms)"

definition evaporatePheromone64 :: "config \<Rightarrow> state \<Rightarrow> state result" where
  "evaporatePheromone64 c st =
     rbind (evap_rows64 c (numCities st) (tauMatrix st) [0..<numCities st]) (\<lambda>m.
     Ok (st\<lparr>tauMatrix := m\<rparr>))"

fun intensify_edges64 ::
  "config \<Rightarrow> state \<Rightarrow> nat \<Rightarrow> float64 list list \<Rightarrow> nat list \<Rightarrow> float64 list list result" where
  "intensify_edges64 c st i m [] = Ok m"
| "intensify_edges64 c st i m (k # ks) =
     rbind (idx (ants st) i) (\<lambda>ant.
     rbind (idx (tour ant) k) (\<lambda>from.
     rbind (idx (tour ant) ((k + 1) mod numCities st)) (\<lambda>to.
     let deltatau = fdiv64 (round64 (qval c)) (tourlength ant) in
     rbind (idx2 m from to) (\<lambda>t.
     rbind (upd2 m from to (fadd64 t deltatau)) (\<lambda>m1.
     rbind (idx2 m1 from to) (\<lambda>t1.
     rbind (upd2 m1 to from t1) (\<lambda>m2.
     intensify_edges64 c st i m2 ks)))))))"

fun intensify_ants64 ::
  "config \<Rightarrow> state \<Rightarrow> float64 list list \<Rightarrow> nat list \<Rightarrow> float64 list list result" where
  "intensify_ants64 c st m [] = Ok m"
| "intensify_ants64 c st m (i # is) =
     rbind (intensify_edges64 c st i m [0..<numCities st]) (\<lambda>m'. intensify_ants64 c st m' is)"

definition intensifyTrail64 :: "config \<Rightarrow> state \<Rightarrow> state result" where
  "intensifyTrail64 c st =
     rbind (intensify_ants64 c st (tauMatrix st) [0..<numAnts c]) (\<lambda>m.
     Ok (st\<lparr>tauMatrix := m\<rparr>))"

subsection \<open>Predicates and functions of the statements\<close>

text \<open>An \<open>n \<times> n\<close> matrix: \<open>n\<close> rows of \<open>n\<close> entries.\<close>

definition square :: "nat \<Rightarrow> 'a list list \<Rightarrow> bool" where
  "square n m = (length m = n \<and> list_all (\<lambda>row. length row = n) m)"

text \<open>A finite value: neither an infinity nor NaN.\<close>

fun isFin :: "float64 \<Rightarrow> bool" where
  "isFin (Fin a) = True"
| "isFin _ = False"

text \<open>The comparison \<open>x \<le> y\<close>: false as soon as one side is NaN.\<close>

fun fle :: "float64 \<Rightarrow> float64 \<Rightarrow> bool" where
  "fle NaN _ = False"
| "fle _ NaN = False"
| "fle (Fin a) (Fin b) = (a \<le> b)"
| "fle (Fin a) PInf = True"
| "fle (Fin a) NInf = False"
| "fle PInf PInf = True"
| "fle PInf _ = False"
| "fle NInf _ = True"

text \<open>
  The invariant of the store: an \<open>n \<times> n\<close> matrix whose entries are all at least 0
  (so none is negative and none is NaN).
\<close>

definition tau_nonneg :: "nat \<Rightarrow> float64 list list \<Rightarrow> bool" where
  "tau_nonneg n m = (square n m \<and> (\<forall>a<n. \<forall>b<n. fle (Fin 0) (m ! a ! b)))"

text \<open>A finite value above 0.\<close>

fun is_pos :: "float64 \<Rightarrow> bool" where
  "is_pos (Fin a) = (0 < a)"
| "is_pos _ = False"

text \<open>
  An ant that \<open>intensifyTrail\<close> can read without a panic: its tour has \<open>n\<close> entries,
  all of them city indices, and its tour length is at least 0.
\<close>

definition ant_ok :: "nat \<Rightarrow> ant_t \<Rightarrow> bool" where
  "ant_ok n a = (length (tour a) = n \<and> list_all (\<lambda>v. v < n) (tour a) \<and> fle (Fin 0) (tourlength a))"

text \<open>A call on the store: an evaporation, or an intensification for the given ants.\<close>

datatype store_op = Evaporate | Intensify "ant_t list"

fun apply_ops64 :: "config \<Rightarrow> state \<Rightarrow> store_op list \<Rightarrow> state result" where
  "apply_ops64 c st [] = Ok st"
| "apply_ops64 c st (Evaporate # ops) =
     rbind (evaporatePheromone64 c st) (\<lambda>st1. apply_ops64 c st1 ops)"
| "apply_ops64 c st (Intensify as # ops) =
     rbind (intensifyTrail64 c (st\<lparr>ants := as\<rparr>)) (\<lambda>st1. apply_ops64 c st1 ops)"

text \<open>
  A call that runs without a panic on \<open>n\<close> cities: an intensification has at least
  \<open>numAnts\<close> ants, all of them readable.
\<close>

fun op_ok :: "config \<Rightarrow> nat \<Rightarrow> store_op \<Rightarrow> bool" where
  "op_ok c n Evaporate = True"
| "op_ok c n (Intensify as) = (numAnts c \<le> length as \<and> list_all (ant_ok n) as)"

text \<open>
  An ant after \<open>k\<close> calls of \<open>goToNewCity\<close>: the first \<open>k\<close> entries of its tour are
  distinct and are exactly the cities marked in its tabu list.
\<close>

definition ant_inv :: "nat \<Rightarrow> nat \<Rightarrow> ant_t \<Rightarrow> bool" where
  "ant_inv n k a = (length (tabulist a) = n \<and> length (tour a) = n \<and> tourIndex a = k \<and> k \<le> n \<and>
     distinct (take k (tour a)) \<and> set (take k (tour a)) = {v. v < n \<and> tabulist a ! v \<noteq> 0})"

text \<open>
  The length of a tour as the claim C3 has it: the costs of the edges between consecutive
  cities of the tour, then the closing edge from its last city to its first.
\<close>

definition cycle_length :: "float64 list list \<Rightarrow> nat list \<Rightarrow> float64" where
  "cycle_length adj t =
     foldl fadd (Fin 0)
       (map (\<lambda>k. adj ! (t ! k) ! (t ! ((k + 1) mod length t))) [0..<length t])"

text \<open>
  The package variables after \<open>k\<close> passes of the outer loop of \<open>main\<close> from the state
  \<open>st\<close>, that is, when pass \<open>k\<close> (from 0) begins: \<open>experiments\<close> without the summaries.
\<close>

fun pass_start :: "nat \<Rightarrow> config \<Rightarrow> nat \<Rightarrow> state \<Rightarrow> state result" where
  "pass_start fuel c 0 st = Ok st"
| "pass_start fuel c (Suc k) st =
     rbind (one_experiment fuel c st) (\<lambda>(st1, s). pass_start fuel c k st1)"



text \<open>The first city, in index order, that is neither the current city nor in the tabu list.\<close>

definition first_free :: "ant_t \<Rightarrow> nat \<Rightarrow> nat \<Rightarrow> nat option" where
  "first_free ant from n = find (\<lambda>to. to \<noteq> from \<and> tabulist ant ! to = 0) [0..<n]"

text \<open>Row \<open>i\<close> of a matrix is finite and positive off the diagonal.\<close>

definition row_fin_pos :: "float64 list list \<Rightarrow> nat \<Rightarrow> nat \<Rightarrow> bool" where
  "row_fin_pos m i n = list_all (\<lambda>j. j = i \<or> (isFin (m ! i ! j) \<and> flt (Fin 0) (m ! i ! j))) [0..<n]"

text \<open>
  The costs that \<open>k\<close> calls of \<open>goToNewCity\<close> add to the tour length of an ant that
  started at city \<open>s\<close>, in the order of the additions: the edge from \<open>s\<close> to the first
  city of the tour, then the edges between consecutive cities of the tour.
\<close>

definition move_costs :: "float64 list list \<Rightarrow> nat \<Rightarrow> nat list \<Rightarrow> nat \<Rightarrow> float64 list" where
  "move_costs adj s t k =
     (if k = 0 then [] else adj ! s ! (t ! 0) # map (\<lambda>j. adj ! (t ! j) ! (t ! (j + 1))) [0..<k - 1])"

text \<open>
  The tour length of an ant that started at city \<open>s\<close>, after \<open>k\<close> calls of
  \<open>goToNewCity\<close> on \<open>n\<close> cities.
\<close>

definition length_inv :: "float64 list list \<Rightarrow> nat \<Rightarrow> nat \<Rightarrow> nat \<Rightarrow> ant_t \<Rightarrow> bool" where
  "length_inv adj s n k a =
     (tourIndex a = k \<and> length (tour a) = n \<and>
      currentCity a = (if k = 0 then s else tour a ! (k - 1)) \<and>
      tourlength a =
        (if k = n \<and> 0 < n
         then fadd (foldl fadd (Fin 0) (move_costs adj s (tour a) k)) (adj ! (tour a ! (n - 1)) ! (tour a ! 0))
         else foldl fadd (Fin 0) (move_costs adj s (tour a) k)))"

text \<open>Every cost of an \<open>n \<times> n\<close> cost matrix is at least 0 (and so not NaN).\<close>

definition costs_ok :: "nat \<Rightarrow> float64 list list \<Rightarrow> bool" where
  "costs_ok n m = (\<forall>a<n. \<forall>b<n. fle (Fin 0) (m ! a ! b))"

subsection \<open>Inputs of the examples\<close>

text \<open>
  Two cities at distance \<open>sqrt 2\<close>, and the state of \<open>main\<close> on them before its outer
  loop (\<open>st_two\<close>), with a random source whose draws are all 0; a configuration of one
  ant, two experiments and one round (\<open>small\<close>); the ant of the first round before and
  after \<open>moveAnts\<close>, and the state that the first experiment leaves.
\<close>

definition two_cities :: "city list" where
  "two_cities = [\<lparr>city_x = 0, city_y = 0\<rparr>, \<lparr>city_x = 1, city_y = 1\<rparr>]"

definition sample_ant :: ant_t where
  "sample_ant = \<lparr>tabulist = [1, 1], currentCity = 0, nextCity = 0, tour = [1, 0],
     tourIndex = 2, tourlength = Fin 3\<rparr>"

definition small :: config where
  "small = defaults\<lparr>numAnts := 1, times_n := 2, tours := 1\<rparr>"

definition st_two :: state where
  "st_two = initTrail (initGraph two_cities (start_state (rng_of [] [])))"

definition fresh_ant :: ant_t where
  "fresh_ant = \<lparr>tabulist = [0, 0], currentCity = 0, nextCity = 0, tour = [0, 0],
     tourIndex = 0, tourlength = Fin 0\<rparr>"

definition done_ant :: ant_t where
  "done_ant = \<lparr>tabulist = [1, 1], currentCity = 0, nextCity = 0, tour = [1, 0],
     tourIndex = 2, tourlength = Fin (3 * sqrt 2)\<rparr>"

definition st_after_one :: state where
  "st_after_one = st_two\<lparr>ants := [done_ant], rand := rng_of [] []\<lparr>ipos := 1, fpos := 2\<rparr>,
     currentIndex := 2, besttour := Some [1, 0],
     tauMatrix := [[Fin 0, Fin ((4 / (3 * sqrt 2) + 2) / 5)],
                   [Fin ((4 / (3 * sqrt 2) + 2) / 5), Fin 0]]\<rparr>"

text \<open>Three cities at the same place, the state of \<open>main\<close> on them, and a fresh ant at city 0.\<close>

definition three_same :: "city list" where
  "three_same = [\<lparr>city_x = 0, city_y = 0\<rparr>, \<lparr>city_x = 0, city_y = 0\<rparr>, \<lparr>city_x = 0, city_y = 0\<rparr>]"

definition st_three :: state where
  "st_three = initTrail (initGraph three_same (start_state (rng_of [] [])))"

definition fresh_ant3 :: ant_t where
  "fresh_ant3 = \<lparr>tabulist = [0, 0, 0], currentCity = 0, nextCity = 0, tour = [0, 0, 0],
     tourIndex = 0, tourlength = Fin 0\<rparr>"

text \<open>The two cities with a store of zeros.\<close>

definition st_zero :: state where
  "st_zero = st_two\<lparr>tauMatrix := [[Fin 0, Fin 0], [Fin 0, Fin 0]]\<rparr>"

text \<open>
  Four cities on a line, a configuration of two ants and two rounds, and the state of
  \<open>main\<close> on them; the ants of the first round start at city 0, those of the second at
  cities 3 and 2, and every \<open>rand.Float64()\<close> is 0.
\<close>

definition four_cities :: "city list" where
  "four_cities = [\<lparr>city_x = 0, city_y = 0\<rparr>, \<lparr>city_x = 2, city_y = 2\<rparr>,
     \<lparr>city_x = 1, city_y = 1\<rparr>, \<lparr>city_x = 3, city_y = 3\<rparr>]"

definition two_by_two :: config where
  "two_by_two = defaults\<lparr>numAnts := 2, tours := 2\<rparr>"

definition st_four :: state where
  "st_four = initTrail (initGraph four_cities (start_state (rng_of [] [0, 0, 3, 2])))"

subsection \<open>The distance model: facts\<close>

lemma int_pow_two: "int_pow a 2 = a\<^sup>2"
  by (simp add: int_pow_def)

lemma fpow_two: "fpow (Fin a) 2 = Fin (a\<^sup>2)"
  by (cases "0 < a") (auto simp: is_int_def int_pow_two)

lemma fpow_half: "0 \<le> a \<Longrightarrow> fpow (Fin a) (1 / 2) = Fin (sqrt a)"
  by (auto simp: powr_half_sqrt)

lemma calEdge_eq: "calEdge c1 c2 = Fin (sqrt ((city_y c2 - city_y c1)\<^sup>2 + (city_y c2 - city_y c1)\<^sup>2))"
  unfolding calEdge_def fpow_two by (simp only: fadd.simps) (rule fpow_half, simp)

lemma adjMatrix_initGraph:
  "i < length cs \<Longrightarrow> j < length cs \<Longrightarrow>
     adjMatrix (initGraph cs st) ! i ! j = calEdge (cs ! i) (cs ! j)"
  by (simp add: initGraph_def)

lemma calEdge_abs: "calEdge c1 c2 = Fin (sqrt 2 * \<bar>city_y c2 - city_y c1\<bar>)"
  by (simp add: calEdge_eq real_sqrt_mult flip: mult_2)

lemma calEdge_sym: "calEdge c1 c2 = calEdge c2 c1"
  by (simp add: calEdge_eq power2_commute)

lemma calEdge_self: "calEdge c c = Fin 0"
  by (simp add: calEdge_eq)

text \<open>
  C10. For any list of cities, the cost matrix that \<open>initGraph\<close> builds is symmetric
  and its diagonal is exactly 0: for all indices \<open>i\<close> and \<open>j\<close> of the list,
  \<open>adjMatrix[i][j] = adjMatrix[j][i]\<close> and \<open>adjMatrix[i][i] = 0\<close>.
\<close>

theorem C10_cost_matrix_symmetric_zero_diagonal:
  assumes "i < length cs" and "j < length cs"
  shows "adjMatrix (initGraph cs st) ! i ! j = adjMatrix (initGraph cs st) ! j ! i
       \<and> adjMatrix (initGraph cs st) ! i ! i = Fin 0"
  using assms by (simp add: adjMatrix_initGraph calEdge_sym calEdge_self)

theorem C10_witness:
  "(0::nat) < length [\<lparr>city_x = 0, city_y = 0\<rparr>, \<lparr>city_x = 3, city_y = 4\<rparr>]
   \<and> (1::nat) < length [\<lparr>city_x = 0, city_y = 0\<rparr>, \<lparr>city_x = 3, city_y = 4\<rparr>]
   \<and> adjMatrix (initGraph [\<lparr>city_x = 0, city_y = 0\<rparr>, \<lparr>city_x = 3, city_y = 4\<rparr>] (start_state (rng_of [] []))) ! 0 ! 1
       = adjMatrix (initGraph [\<lparr>city_x = 0, city_y = 0\<rparr>, \<lparr>city_x = 3, city_y = 4\<rparr>] (start_state (rng_of [] []))) ! 1 ! 0
   \<and> adjMatrix (initGraph [\<lparr>city_x = 0, city_y = 0\<rparr>, \<lparr>city_x = 3, city_y = 4\<rparr>] (start_state (rng_of [] []))) ! 0 ! 0 = Fin 0"
  using C10_cost_matrix_symmetric_zero_diagonal
    [of 0 "[\<lparr>city_x = 0, city_y = 0\<rparr>, \<lparr>city_x = 3, city_y = 4\<rparr>]" 1 "start_state (rng_of [] [])"]
  by simp

text \<open>
  C4. The claim: entry \<open>(i, j)\<close> of the cost matrix is the Euclidean distance
  \<open>sqrt ((x\<^sub>i - x\<^sub>j)\<^sup>2 + (y\<^sub>i - y\<^sub>j)\<^sup>2)\<close>. The code squares the difference of the
  \<open>y\<close> coordinates twice and never reads \<open>x\<close>: for the cities \<open>(0, 0)\<close> and
  \<open>(1, 0)\<close>, at Euclidean distance 1, the entry is 0.
\<close>

theorem C4_calEdge_ignores_x:
  "adjMatrix (initGraph [\<lparr>city_x = 0, city_y = 0\<rparr>, \<lparr>city_x = 1, city_y = 0\<rparr>] (start_state (rng_of [] []))) ! 0 ! 1 = Fin 0
   \<and> sqrt ((0 - 1)\<^sup>2 + (0 - 0)\<^sup>2) = (1::real)"
  by (simp add: adjMatrix_initGraph calEdge_eq)

subsection \<open>Results and matrices: facts\<close>

lemma rbind_Ok_iff: "rbind m f = Ok v \<longleftrightarrow> (\<exists>u. m = Ok u \<and> f u = Ok v)"
  by (cases m) auto

lemma idx_Ok_iff: "idx xs i = Ok v \<longleftrightarrow> i < length xs \<and> v = xs ! i"
  by (auto simp: idx_def)

lemma upd_Ok_iff: "upd xs i v = Ok ys \<longleftrightarrow> i < length xs \<and> ys = xs[i := v]"
  by (auto simp: upd_def)

lemma idx2_Ok_iff: "idx2 m i j = Ok v \<longleftrightarrow> i < length m \<and> j < length (m ! i) \<and> v = m ! i ! j"
  by (auto simp: idx2_def rbind_Ok_iff idx_Ok_iff)

lemma upd2_Ok_iff:
  "upd2 m i j v = Ok m' \<longleftrightarrow> i < length m \<and> j < length (m ! i) \<and> m' = m[i := (m ! i)[j := v]]"
  by (auto simp: upd2_def rbind_Ok_iff idx_Ok_iff upd_Ok_iff)

lemma square_nth: "square n m \<Longrightarrow> i < n \<Longrightarrow> length (m ! i) = n"
  by (auto simp: square_def list_all_length)

lemma square_length: "square n m \<Longrightarrow> length m = n"
  by (simp add: square_def)

lemma idx2_square: "square n m \<Longrightarrow> i < n \<Longrightarrow> j < n \<Longrightarrow> idx2 m i j = Ok (m ! i ! j)"
  by (simp add: idx2_def idx_def square_nth square_length)

lemma upd2_square:
  "square n m \<Longrightarrow> i < n \<Longrightarrow> j < n \<Longrightarrow> upd2 m i j v = Ok (m[i := (m ! i)[j := v]])"
  by (simp add: upd2_def idx_def upd_def square_nth square_length)

lemma square_update: "square n m \<Longrightarrow> i < n \<Longrightarrow> square n (m[i := (m ! i)[j := v]])"
  by (auto simp: square_def list_all_length nth_list_update)

lemma nth_update2:
  "square n m \<Longrightarrow> a < n \<Longrightarrow> b < n \<Longrightarrow>
     m[i := (m ! i)[j := v]] ! a ! b = (if a = i \<and> b = j then v else m ! a ! b)"
  by (cases "a = i") (auto simp: square_def list_all_length nth_list_update)

lemma evap_cells_square:
  "square n m \<Longrightarrow> from < n \<Longrightarrow> set tos \<subseteq> {..<n} \<Longrightarrow> distinct tos \<Longrightarrow>
     \<exists>m'. evap_cells c m from tos = Ok m' \<and> square n m' \<and>
       (\<forall>a<n. \<forall>b<n. m' ! a ! b = (if a = from \<and> b \<in> set tos then evap_entry c (m ! a ! b) else m ! a ! b))"
proof (induction tos arbitrary: m)
  case Nil
  then show ?case by simp
next
  case (Cons to tos)
  let ?m1 = "m[from := (m ! from)[to := evap_entry c (m ! from ! to)]]"
  have to: "to < n" using Cons.prems by simp
  have sq1: "square n ?m1" using Cons.prems by (simp add: square_update)
  have step: "evap_cells c m from (to # tos) = evap_cells c ?m1 from tos"
    using Cons.prems to by (simp add: idx2_square upd2_square)
  from Cons.IH[OF sq1] Cons.prems obtain m' where
    m': "evap_cells c ?m1 from tos = Ok m'" "square n m'"
      "\<forall>a<n. \<forall>b<n. m' ! a ! b = (if a = from \<and> b \<in> set tos then evap_entry c (?m1 ! a ! b) else ?m1 ! a ! b)"
    by auto
  have "\<forall>a<n. \<forall>b<n. m' ! a ! b = (if a = from \<and> b \<in> set (to # tos) then evap_entry c (m ! a ! b) else m ! a ! b)"
    using m'(3) Cons.prems to by (auto simp: nth_update2)
  with m' step show ?case by auto
qed

lemma evap_rows_square:
  "square n m \<Longrightarrow> set froms \<subseteq> {..<n} \<Longrightarrow> distinct froms \<Longrightarrow>
     \<exists>m'. evap_rows c n m froms = Ok m' \<and> square n m' \<and>
       (\<forall>a<n. \<forall>b<n. m' ! a ! b = (if a \<in> set froms then evap_entry c (m ! a ! b) else m ! a ! b))"
proof (induction froms arbitrary: m)
  case Nil
  then show ?case by simp
next
  case (Cons f froms)
  have "f < n" using Cons.prems by simp
  moreover have "set [0..<n] \<subseteq> {..<n}" "distinct [0..<n]" by auto
  ultimately obtain m1 where
    m1: "evap_cells c m f [0..<n] = Ok m1" "square n m1"
      "\<forall>a<n. \<forall>b<n. m1 ! a ! b = (if a = f then evap_entry c (m ! a ! b) else m ! a ! b)"
    using evap_cells_square[OF Cons.prems(1), of f "[0..<n]" c] by auto
  from Cons.IH[OF m1(2)] Cons.prems obtain m' where
    m': "evap_rows c n m1 froms = Ok m'" "square n m'"
      "\<forall>a<n. \<forall>b<n. m' ! a ! b = (if a \<in> set froms then evap_entry c (m1 ! a ! b) else m1 ! a ! b)"
    by auto
  have "\<forall>a<n. \<forall>b<n. m' ! a ! b = (if a \<in> set (f # froms) then evap_entry c (m ! a ! b) else m ! a ! b)"
    using m'(3) m1(3) Cons.prems by auto
  with m1 m' show ?case by auto
qed

lemma evaporatePheromone_square:
  assumes "square (numCities st) (tauMatrix st)"
  shows "\<exists>m'. evaporatePheromone c st = Ok (st\<lparr>tauMatrix := m'\<rparr>) \<and> square (numCities st) m' \<and>
       (\<forall>a<numCities st. \<forall>b<numCities st. m' ! a ! b = evap_entry c (tauMatrix st ! a ! b))"
proof -
  have "set [0..<numCities st] \<subseteq> {..<numCities st}" "distinct [0..<numCities st]" by auto
  from evap_rows_square[OF assms this, of c] obtain m' where
    "evap_rows c (numCities st) (tauMatrix st) [0..<numCities st] = Ok m'"
    "square (numCities st) m'"
    "\<forall>a<numCities st. \<forall>b<numCities st. m' ! a ! b = evap_entry c (tauMatrix st ! a ! b)"
    by auto
  then show ?thesis by (auto simp: evaporatePheromone_def)
qed

lemma square_initTrail: "square (numCities st) (tauMatrix (initTrail st))"
  by (simp add: initTrail_def square_def list_all_length)

lemma nth_initTrail:
  "i < numCities st \<Longrightarrow> j < numCities st \<Longrightarrow>
     tauMatrix (initTrail st) ! i ! j = (if i \<noteq> j then Fin 1 else Fin 0)"
  by (simp add: initTrail_def)

subsection \<open>The pheromone store: facts\<close>

lemma evaporatePheromone_map:
  assumes "square (numCities st) (tauMatrix st)"
  shows "evaporatePheromone c st = Ok (st\<lparr>tauMatrix := map (map (evap_entry c)) (tauMatrix st)\<rparr>)"
proof -
  from evaporatePheromone_square[OF assms, of c] obtain m' where
    m': "evaporatePheromone c st = Ok (st\<lparr>tauMatrix := m'\<rparr>)" "square (numCities st) m'"
      "\<forall>a<numCities st. \<forall>b<numCities st. m' ! a ! b = evap_entry c (tauMatrix st ! a ! b)"
    by auto
  have "m' = map (map (evap_entry c)) (tauMatrix st)"
  proof (rule nth_equalityI)
    show "length m' = length (map (map (evap_entry c)) (tauMatrix st))"
      using m'(2) assms by (simp add: square_length)
  next
    fix a assume "a < length m'"
    then have a: "a < numCities st" using m'(2) by (simp add: square_length)
    show "m' ! a = map (map (evap_entry c)) (tauMatrix st) ! a"
    proof (rule nth_equalityI)
      show "length (m' ! a) = length (map (map (evap_entry c)) (tauMatrix st) ! a)"
        using a m'(2) assms by (simp add: square_nth square_length)
    next
      fix b assume "b < length (m' ! a)"
      then have "b < numCities st" using a m'(2) by (simp add: square_nth)
      then show "m' ! a ! b = map (map (evap_entry c)) (tauMatrix st) ! a ! b"
        using a m'(3) assms by (simp add: square_nth square_length)
    qed
  qed
  with m'(1) show ?thesis by simp
qed

lemma evap_entry_rho_one: "rho c = 1 \<Longrightarrow> isFin t \<Longrightarrow> evap_entry c t = Fin 0"
  by (cases t) (simp_all add: evap_entry_def)

lemma map_const_replicate: "list_all (\<lambda>x. f x = v) xs \<Longrightarrow> map f xs = replicate (length xs) v"
  by (induction xs) auto

text \<open>
  C5, as the code has it. With \<open>rho = 1.0\<close> one call of \<open>evaporatePheromone\<close> on an
  \<open>numCities \<times> numCities\<close> store of finite entries leaves every entry at 0, not at the
  base value 1.0: the product \<open>tau * (1.0 - rho)\<close> is 0, and the reset to 1.0 happens only
  for a product strictly below 0.
\<close>

theorem C5_full_evaporation_zeroes:
  assumes "rho c = 1"
    and "square (numCities st) (tauMatrix st)"
    and "list_all (list_all isFin) (tauMatrix st)"
  shows "evaporatePheromone c st =
           Ok (st\<lparr>tauMatrix := replicate (numCities st) (replicate (numCities st) (Fin 0))\<rparr>)"
proof -
  have row: "map (evap_entry c) row = replicate (numCities st) (Fin 0)"
    if "row \<in> set (tauMatrix st)" for row
  proof -
    have "length row = numCities st" "list_all isFin row"
      using that assms(2,3) by (auto simp: square_def list_all_iff)
    then show ?thesis
      using map_const_replicate[of "evap_entry c" "Fin 0" row] assms(1)
      by (simp add: list_all_iff evap_entry_rho_one)
  qed
  have "map (map (evap_entry c)) (tauMatrix st) = replicate (numCities st) (replicate (numCities st) (Fin 0))"
    using map_const_replicate[of "map (evap_entry c)" "replicate (numCities st) (Fin 0)" "tauMatrix st"]
      row assms(2) by (simp add: list_all_iff square_def)
  then show ?thesis by (simp add: evaporatePheromone_map[OF assms(2)])
qed

lemma numCities_two [simp]: "numCities (initTrail (initGraph two_cities st)) = 2"
  by (simp add: initTrail_def initGraph_def two_cities_def)

lemma upt_2: "[0..<2] = [0, Suc 0]"
  by (simp add: upt_rec numeral_2_eq_2)

lemma tau_two [simp]:
  "tauMatrix (initTrail (initGraph two_cities st)) = [[Fin 0, Fin 1], [Fin 1, Fin 0]]"
  by (simp add: initTrail_def initGraph_def two_cities_def upt_2)

theorem C5_witness:
  "rho (defaults\<lparr>rho := 1\<rparr>) = 1
   \<and> square (numCities (initTrail (initGraph two_cities (start_state (rng_of [] [])))))
        (tauMatrix (initTrail (initGraph two_cities (start_state (rng_of [] [])))))
   \<and> list_all (list_all isFin) (tauMatrix (initTrail (initGraph two_cities (start_state (rng_of [] [])))))
   \<and> rbind (evaporatePheromone (defaults\<lparr>rho := 1\<rparr>)
         (initTrail (initGraph two_cities (start_state (rng_of [] []))))) (\<lambda>st. Ok (tauMatrix st))
       = Ok [[Fin 0, Fin 0], [Fin 0, Fin 0]]"
  using C5_full_evaporation_zeroes [of "defaults\<lparr>rho := 1\<rparr>"
      "initTrail (initGraph two_cities (start_state (rng_of [] [])))"]
  by (simp add: square_def numeral_2_eq_2)

theorem C5_counterexample:
  "rbind (evaporatePheromone (defaults\<lparr>rho := 1\<rparr>)
      (initTrail (initGraph two_cities (start_state (rng_of [] []))))) (\<lambda>st. idx2 (tauMatrix st) 0 1)
     = Ok (Fin 0)
   \<and> Fin 0 \<noteq> Fin 1"
  by (simp add: evaporatePheromone_map square_def evap_entry_def idx2_def idx_def)

lemma fle_fadd: "fle (Fin 0) t \<Longrightarrow> fle (Fin 0) d \<Longrightarrow> fle (Fin 0) (fadd t d)"
  by (cases t; cases d) auto

lemma numCities_initGraph_two [simp]: "numCities (initGraph two_cities st) = 2"
  by (simp add: initGraph_def two_cities_def)

subsection \<open>Binary64 rounding: facts\<close>

text \<open>
  Rounding to the nearest integer moves a value by at most one half; rounding to float64
  keeps the sign, sends what is below 2^(-1075) to 0, and moves a value of moderate size
  \<open>a\<close> by at most \<open>a / 2^53 + 2^(-1075)\<close>.
\<close>

lemma rhe_err: "\<bar>of_int (rhe q) - q\<bar> \<le> 1 / 2"
proof -
  have "of_int \<lfloor>q\<rfloor> \<le> q" "q < of_int \<lfloor>q\<rfloor> + 1" by linarith+
  then show ?thesis by (auto simp: rhe_def Let_def)
qed

lemma rhe_nonneg: "0 \<le> q \<Longrightarrow> 0 \<le> rhe q"
  by (auto simp: rhe_def Let_def)

lemma rhe_zero: "0 \<le> q \<Longrightarrow> q < 1 / 2 \<Longrightarrow> rhe q = 0"
proof -
  assume a: "0 \<le> q" "q < 1 / 2"
  then have "\<lfloor>q\<rfloor> = 0" by linarith
  with a show ?thesis by (simp add: rhe_def Let_def)
qed

lemma p1074: "(2::real) powr (- 1074) = 1 / 2 ^ 1074"
  by (simp add: powr_minus_divide)

lemma round64_pos_small:
  assumes "0 < a" and "a < 1 / 2 ^ 1075"
  shows "round64_pos a = Fin 0"
proof -
  have "a < 2 powr (- 1022)"
  proof -
    have "(1::real) / 2 ^ 1075 \<le> 1 / 2 ^ 1022" by simp
    also have "\<dots> = 2 powr (- 1022)" by (simp add: powr_minus_divide)
    finally show ?thesis using assms(2) by simp
  qed
  then have "log 2 a < - 1022" using assms(1) by (simp add: log_less_iff)
  then have "\<lfloor>log 2 a\<rfloor> < - 1022" by linarith
  then have e: "max \<lfloor>log 2 a\<rfloor> (- 1022) = - 1022" by simp
  have q: "a / (1 / 2 ^ 1074) < 1 / 2" using assms(2) by simp
  have q0: "0 \<le> a / (1 / 2 ^ 1074)" using assms(1) by simp
  have "rhe (a / (1 / 2 ^ 1074)) = 0" using q0 q by (rule rhe_zero)
  then show ?thesis
    by (simp add: round64_pos_def e Let_def p1074 del: divide_divide_eq_left)
qed

lemma round64_pos_cases:
  assumes "0 < a"
  shows "round64_pos a = PInf \<or> (\<exists>y. round64_pos a = Fin y \<and> 0 \<le> y)"
proof -
  define u where "u = (2::real) powr (of_int (max \<lfloor>log 2 a\<rfloor> (- 1022)) - 52)"
  have "0 < u" by (simp add: u_def)
  then have "0 \<le> a / u" using assms by simp
  then have "0 \<le> rhe (a / u)" by (rule rhe_nonneg)
  then have "0 \<le> of_int (rhe (a / u)) * u" using \<open>0 < u\<close> by simp
  then show ?thesis by (simp add: round64_pos_def Let_def u_def)
qed

lemma round64_pos_err:
  assumes "0 < a" and "a \<le> 2 ^ 1023"
  shows "\<exists>y. round64_pos a = Fin y \<and> 0 \<le> y \<and> \<bar>y - a\<bar> \<le> a / 2 ^ 53 + 1 / 2 ^ 1075"
proof -
  define e where "e = max \<lfloor>log 2 a\<rfloor> (- 1022)"
  define u where "u = (2::real) powr (of_int e - 52)"
  define y where "y = of_int (rhe (a / u)) * u"
  have u0: "0 < u" by (simp add: u_def)
  have half: "u / 2 \<le> a / 2 ^ 53 + 1 / 2 ^ 1075"
  proof (cases "- 1022 \<le> \<lfloor>log 2 a\<rfloor>")
    case True
    then have e: "e = \<lfloor>log 2 a\<rfloor>" by (simp add: e_def)
    have "of_int \<lfloor>log 2 a\<rfloor> \<le> log 2 a" by simp
    then have "2 powr (of_int \<lfloor>log 2 a\<rfloor>) \<le> a" using assms(1) by (simp add: powr_le_iff)
    moreover have "u = 2 powr (of_int \<lfloor>log 2 a\<rfloor>) / 2 ^ 52"
      by (simp add: u_def e powr_diff)
    ultimately have "u \<le> a / 2 ^ 52" by (simp add: divide_right_mono)
    then have "u / 2 \<le> a / 2 ^ 53" by simp
    then show ?thesis by (simp add: add_increasing2)
  next
    case False
    then have "e = - 1022" by (simp add: e_def)
    then have "u = 1 / 2 ^ 1074" by (simp add: u_def powr_minus_divide)
    then have "u / 2 = 1 / 2 ^ 1075" by simp
    then show ?thesis using assms(1) by simp
  qed
  have "\<bar>of_int (rhe (a / u)) - a / u\<bar> \<le> 1 / 2" by (rule rhe_err)
  then have "\<bar>of_int (rhe (a / u)) - a / u\<bar> * u \<le> 1 / 2 * u"
    using u0 by (simp add: mult_right_mono)
  moreover have "\<bar>of_int (rhe (a / u)) - a / u\<bar> * u = \<bar>y - a\<bar>"
  proof -
    have "y - a = (of_int (rhe (a / u)) - a / u) * u" using u0 by (simp add: y_def algebra_simps)
    then show ?thesis using u0 by (simp add: abs_mult)
  qed
  ultimately have err: "\<bar>y - a\<bar> \<le> a / 2 ^ 53 + 1 / 2 ^ 1075" using half by simp
  have "0 \<le> a / u" using u0 assms(1) by simp
  then have "0 \<le> rhe (a / u)" by (rule rhe_nonneg)
  then have y0: "0 \<le> y" using u0 by (simp add: y_def)
  have "y < 2 ^ 1024"
  proof -
    have "y \<le> a + a / 2 ^ 53 + 1 / 2 ^ 1075" using err by linarith
    also have "\<dots> \<le> 2 ^ 1023 + 2 ^ 1023 / 2 ^ 53 + 1 / 2 ^ 1075"
      using assms(2) by (simp add: add_mono divide_right_mono)
    also have "\<dots> < 2 ^ 1024" by simp
    finally show ?thesis .
  qed
  then have "round64_pos a = Fin y" by (simp add: round64_pos_def Let_def y_def u_def e_def)
  with y0 err show ?thesis by simp
qed

lemma round64_small: "0 \<le> x \<Longrightarrow> x < 1 / 2 ^ 1075 \<Longrightarrow> round64 x = Fin 0"
  by (simp add: round64_def round64_pos_small)

lemma round64_err:
  assumes "0 \<le> x" and "x \<le> 2 ^ 1023"
  shows "\<exists>y. round64 x = Fin y \<and> 0 \<le> y \<and> \<bar>y - x\<bar> \<le> x / 2 ^ 53 + 1 / 2 ^ 1075"
proof (cases "x = 0")
  case True
  then show ?thesis by (simp add: round64_def)
next
  case False
  then have "0 < x" using assms(1) by simp
  then show ?thesis using round64_pos_err[OF _ assms(2)] by (simp add: round64_def)
qed

lemma round64_nonneg: "0 \<le> x \<Longrightarrow> fle (Fin 0) (round64 x)"
  using round64_pos_cases[of x] by (auto simp: round64_def)

lemma rnd_nonneg: "fle (Fin 0) v \<Longrightarrow> fle (Fin 0) (rnd v)"
  by (cases v) (simp_all add: round64_nonneg)

subsection \<open>The pheromone store in binary64 arithmetic: facts\<close>

lemma fle_fadd64: "fle (Fin 0) t \<Longrightarrow> fle (Fin 0) d \<Longrightarrow> fle (Fin 0) (fadd64 t d)"
  unfolding fadd64_def by (rule rnd_nonneg) (rule fle_fadd)

lemma fle_deltatau64: "is_pos q \<Longrightarrow> fle (Fin 0) x \<Longrightarrow> fle (Fin 0) (fdiv64 q x)"
  unfolding fdiv64_def by (rule rnd_nonneg) (cases q; cases x; auto)

lemma fle_evap_entry64:
  assumes "is_pos (fsub64 (Fin 1) (round64 (rho c)))" and "fle (Fin 0) t"
  shows "fle (Fin 0) (evap_entry64 c t)"
proof -
  have "fle (Fin 0) (fmul t (fsub64 (Fin 1) (round64 (rho c))))"
    using assms by (cases "fsub64 (Fin 1) (round64 (rho c))"; cases t; auto)
  then have "fle (Fin 0) (fmul64 t (fsub64 (Fin 1) (round64 (rho c))))"
    unfolding fmul64_def by (rule rnd_nonneg)
  then show ?thesis by (simp add: evap_entry64_def Let_def)
qed

lemma evap_cells64_square:
  "square n m \<Longrightarrow> from < n \<Longrightarrow> set tos \<subseteq> {..<n} \<Longrightarrow> distinct tos \<Longrightarrow>
     \<exists>m'. evap_cells64 c m from tos = Ok m' \<and> square n m' \<and>
       (\<forall>a<n. \<forall>b<n. m' ! a ! b = (if a = from \<and> b \<in> set tos then evap_entry64 c (m ! a ! b) else m ! a ! b))"
proof (induction tos arbitrary: m)
  case Nil
  then show ?case by simp
next
  case (Cons to tos)
  let ?m1 = "m[from := (m ! from)[to := evap_entry64 c (m ! from ! to)]]"
  have to: "to < n" using Cons.prems by simp
  have sq1: "square n ?m1" using Cons.prems by (simp add: square_update)
  have step: "evap_cells64 c m from (to # tos) = evap_cells64 c ?m1 from tos"
    using Cons.prems to by (simp add: idx2_square upd2_square)
  from Cons.IH[OF sq1] Cons.prems obtain m' where
    m': "evap_cells64 c ?m1 from tos = Ok m'" "square n m'"
      "\<forall>a<n. \<forall>b<n. m' ! a ! b = (if a = from \<and> b \<in> set tos then evap_entry64 c (?m1 ! a ! b) else ?m1 ! a ! b)"
    by auto
  have "\<forall>a<n. \<forall>b<n. m' ! a ! b = (if a = from \<and> b \<in> set (to # tos) then evap_entry64 c (m ! a ! b) else m ! a ! b)"
    using m'(3) Cons.prems to by (auto simp: nth_update2)
  with m' step show ?case by auto
qed

lemma evap_rows64_square:
  "square n m \<Longrightarrow> set froms \<subseteq> {..<n} \<Longrightarrow> distinct froms \<Longrightarrow>
     \<exists>m'. evap_rows64 c n m froms = Ok m' \<and> square n m' \<and>
       (\<forall>a<n. \<forall>b<n. m' ! a ! b = (if a \<in> set froms then evap_entry64 c (m ! a ! b) else m ! a ! b))"
proof (induction froms arbitrary: m)
  case Nil
  then show ?case by simp
next
  case (Cons f froms)
  have "f < n" using Cons.prems by simp
  moreover have "set [0..<n] \<subseteq> {..<n}" "distinct [0..<n]" by auto
  ultimately obtain m1 where
    m1: "evap_cells64 c m f [0..<n] = Ok m1" "square n m1"
      "\<forall>a<n. \<forall>b<n. m1 ! a ! b = (if a = f then evap_entry64 c (m ! a ! b) else m ! a ! b)"
    using evap_cells64_square[OF Cons.prems(1), of f "[0..<n]" c] by auto
  from Cons.IH[OF m1(2)] Cons.prems obtain m' where
    m': "evap_rows64 c n m1 froms = Ok m'" "square n m'"
      "\<forall>a<n. \<forall>b<n. m' ! a ! b = (if a \<in> set froms then evap_entry64 c (m1 ! a ! b) else m1 ! a ! b)"
    by auto
  have "\<forall>a<n. \<forall>b<n. m' ! a ! b = (if a \<in> set (f # froms) then evap_entry64 c (m ! a ! b) else m ! a ! b)"
    using m'(3) m1(3) Cons.prems by auto
  with m1 m' show ?case by auto
qed

lemma evaporatePheromone64_square:
  assumes "square (numCities st) (tauMatrix st)"
  shows "\<exists>m'. evaporatePheromone64 c st = Ok (st\<lparr>tauMatrix := m'\<rparr>) \<and> square (numCities st) m' \<and>
       (\<forall>a<numCities st. \<forall>b<numCities st. m' ! a ! b = evap_entry64 c (tauMatrix st ! a ! b))"
proof -
  have "set [0..<numCities st] \<subseteq> {..<numCities st}" "distinct [0..<numCities st]" by auto
  from evap_rows64_square[OF assms this, of c] obtain m' where
    "evap_rows64 c (numCities st) (tauMatrix st) [0..<numCities st] = Ok m'"
    "square (numCities st) m'"
    "\<forall>a<numCities st. \<forall>b<numCities st. m' ! a ! b = evap_entry64 c (tauMatrix st ! a ! b)"
    by auto
  then show ?thesis by (auto simp: evaporatePheromone64_def)
qed

lemma evaporatePheromone64_map:
  assumes "square (numCities st) (tauMatrix st)"
  shows "evaporatePheromone64 c st = Ok (st\<lparr>tauMatrix := map (map (evap_entry64 c)) (tauMatrix st)\<rparr>)"
proof -
  from evaporatePheromone64_square[OF assms, of c] obtain m' where
    m': "evaporatePheromone64 c st = Ok (st\<lparr>tauMatrix := m'\<rparr>)" "square (numCities st) m'"
      "\<forall>a<numCities st. \<forall>b<numCities st. m' ! a ! b = evap_entry64 c (tauMatrix st ! a ! b)"
    by auto
  have "m' = map (map (evap_entry64 c)) (tauMatrix st)"
  proof (rule nth_equalityI)
    show "length m' = length (map (map (evap_entry64 c)) (tauMatrix st))"
      using m'(2) assms by (simp add: square_length)
  next
    fix a assume "a < length m'"
    then have a: "a < numCities st" using m'(2) by (simp add: square_length)
    show "m' ! a = map (map (evap_entry64 c)) (tauMatrix st) ! a"
    proof (rule nth_equalityI)
      show "length (m' ! a) = length (map (map (evap_entry64 c)) (tauMatrix st) ! a)"
        using a m'(2) assms by (simp add: square_nth square_length)
    next
      fix b assume "b < length (m' ! a)"
      then have "b < numCities st" using a m'(2) by (simp add: square_nth)
      then show "m' ! a ! b = map (map (evap_entry64 c)) (tauMatrix st) ! a ! b"
        using a m'(3) assms by (simp add: square_nth square_length)
    qed
  qed
  with m'(1) show ?thesis by simp
qed

lemma edge_step64:
  assumes sq: "square n m" and f: "f < n" and t: "t < n"
  shows "rbind (idx2 m f t) (\<lambda>x.
         rbind (upd2 m f t (fadd64 x d)) (\<lambda>m1.
         rbind (idx2 m1 f t) (\<lambda>t1.
         rbind (upd2 m1 t f t1) g)))
       = g ((m[f := (m ! f)[t := fadd64 (m ! f ! t) d]])
             [t := ((m[f := (m ! f)[t := fadd64 (m ! f ! t) d]]) ! t)[f := fadd64 (m ! f ! t) d]])"
proof -
  define m1 where "m1 = m[f := (m ! f)[t := fadd64 (m ! f ! t) d]]"
  have sq1: "square n m1" unfolding m1_def using sq f by (rule square_update)
  have rd: "m1 ! f ! t = fadd64 (m ! f ! t) d"
    unfolding m1_def using f t by (simp add: nth_update2[OF sq])
  have "rbind (idx2 m f t) (\<lambda>x.
         rbind (upd2 m f t (fadd64 x d)) (\<lambda>m1.
         rbind (idx2 m1 f t) (\<lambda>t1.
         rbind (upd2 m1 t f t1) g)))
       = rbind (idx2 m1 f t) (\<lambda>t1. rbind (upd2 m1 t f t1) g)"
    using f t by (simp add: idx2_square[OF sq] upd2_square[OF sq] m1_def)
  also have "\<dots> = g (m1[t := (m1 ! t)[f := fadd64 (m ! f ! t) d]])"
    using f t by (simp add: idx2_square[OF sq1] upd2_square[OF sq1] rd)
  finally show ?thesis by (simp add: m1_def)
qed

lemma nonneg_edge64:
  assumes ok: "tau_nonneg n m" and f: "f < n" and t: "t < n" and d: "fle (Fin 0) d"
    and m1: "m1 = m[f := (m ! f)[t := fadd64 (m ! f ! t) d]]"
    and m2: "m2 = m1[t := (m1 ! t)[f := fadd64 (m ! f ! t) d]]"
  shows "tau_nonneg n m2"
proof -
  define v where "v = fadd64 (m ! f ! t) d"
  have sq: "square n m" using ok by (simp add: tau_nonneg_def)
  have sq1: "square n m1" unfolding m1 using sq f by (rule square_update)
  have sq2: "square n m2" unfolding m2 using sq1 t by (rule square_update)
  have e1: "m1 ! a ! b = (if a = f \<and> b = t then v else m ! a ! b)" if "a < n" "b < n" for a b
    unfolding m1 v_def using sq that by (rule nth_update2)
  have e2: "m2 ! a ! b = (if a = t \<and> b = f then v else m1 ! a ! b)" if "a < n" "b < n" for a b
    unfolding m2 v_def using sq1 that by (rule nth_update2)
  have v: "fle (Fin 0) v"
    using ok f t d by (simp add: tau_nonneg_def v_def fle_fadd64)
  have "fle (Fin 0) (m2 ! a ! b)" if ab: "a < n" "b < n" for a b
  proof -
    have old: "fle (Fin 0) (m ! a ! b)" using ok ab by (simp add: tau_nonneg_def)
    show ?thesis using e1[OF ab] e2[OF ab] v old by auto
  qed
  with sq2 show ?thesis by (simp add: tau_nonneg_def)
qed

lemma intensify_edges64_ok:
  assumes "numCities st = n" and "is_pos (round64 (qval c))" and "i < length (ants st)"
    and "ant_ok n (ants st ! i)"
  shows "tau_nonneg n m \<Longrightarrow> set ks \<subseteq> {..<n} \<Longrightarrow>
     \<exists>m'. intensify_edges64 c st i m ks = Ok m' \<and> tau_nonneg n m'"
proof (induction ks arbitrary: m)
  case Nil
  then show ?case by simp
next
  case (Cons k ks)
  define ant where "ant = ants st ! i"
  define f where "f = tour ant ! k"
  define t where "t = tour ant ! ((k + 1) mod n)"
  define d where "d = fdiv64 (round64 (qval c)) (tourlength ant)"
  define m1 where "m1 = m[f := (m ! f)[t := fadd64 (m ! f ! t) d]]"
  define m2 where "m2 = m1[t := (m1 ! t)[f := fadd64 (m ! f ! t) d]]"
  have k: "k < n" using Cons.prems by simp
  then have k1: "(k + 1) mod n < n" by simp
  have len: "length (tour ant) = n" and all: "\<forall>v<n. tour ant ! v < n"
    and tlen: "fle (Fin 0) (tourlength ant)"
    using assms(4) by (auto simp: ant_ok_def list_all_length ant_def)
  have f: "f < n" and t: "t < n" using all k k1 by (auto simp: f_def t_def)
  have d: "fle (Fin 0) d" unfolding d_def using assms(2) tlen by (rule fle_deltatau64)
  have sq: "square n m" using Cons.prems by (simp add: tau_nonneg_def)
  have "intensify_edges64 c st i m (k # ks) =
      rbind (idx2 m f t) (\<lambda>x.
         rbind (upd2 m f t (fadd64 x d)) (\<lambda>m1.
         rbind (idx2 m1 f t) (\<lambda>t1.
         rbind (upd2 m1 t f t1) (\<lambda>m2. intensify_edges64 c st i m2 ks))))"
    using assms(1,3) k k1 len
    by (simp add: idx_def Let_def ant_def f_def t_def d_def)
  also have "\<dots> = intensify_edges64 c st i m2 ks"
    unfolding m2_def m1_def using sq f t by (rule edge_step64)
  finally have step: "intensify_edges64 c st i m (k # ks) = intensify_edges64 c st i m2 ks" .
  have "tau_nonneg n m2" using Cons.prems(1) f t d m1_def m2_def by (rule nonneg_edge64)
  from Cons.IH[OF this] Cons.prems(2) step show ?case by simp
qed

lemma intensify_ants64_ok:
  assumes "numCities st = n" and "is_pos (round64 (qval c))" and "list_all (ant_ok n) (ants st)"
  shows "tau_nonneg n m \<Longrightarrow> set js \<subseteq> {..<length (ants st)} \<Longrightarrow>
     \<exists>m'. intensify_ants64 c st m js = Ok m' \<and> tau_nonneg n m'"
proof (induction js arbitrary: m)
  case Nil
  then show ?case by simp
next
  case (Cons i js)
  have i: "i < length (ants st)" using Cons.prems by simp
  then have "ant_ok n (ants st ! i)" using assms(3) by (simp add: list_all_length)
  moreover have "set [0..<n] \<subseteq> {..<n}" by auto
  ultimately obtain m1 where m1: "intensify_edges64 c st i m [0..<n] = Ok m1" "tau_nonneg n m1"
    using intensify_edges64_ok[OF assms(1,2) i _ Cons.prems(1), of "[0..<n]"] by blast
  from Cons.IH[OF m1(2)] Cons.prems(2) obtain m' where
    "intensify_ants64 c st m1 js = Ok m'" "tau_nonneg n m'" by auto
  with m1 assms(1) show ?case by simp
qed

lemma nonneg_intensify64:
  assumes "is_pos (round64 (qval c))" and "numAnts c \<le> length (ants st)"
    and "list_all (ant_ok (numCities st)) (ants st)" and "tau_nonneg (numCities st) (tauMatrix st)"
  shows "\<exists>st1. intensifyTrail64 c st = Ok st1 \<and> numCities st1 = numCities st
           \<and> tau_nonneg (numCities st) (tauMatrix st1)"
proof -
  have "set [0..<numAnts c] \<subseteq> {..<length (ants st)}" using assms(2) by auto
  from intensify_ants64_ok[OF refl assms(1,3,4) this]
  obtain m' where "intensify_ants64 c st (tauMatrix st) [0..<numAnts c] = Ok m'"
    "tau_nonneg (numCities st) m'" by auto
  then show ?thesis by (simp add: intensifyTrail64_def)
qed

lemma nonneg_evaporate64:
  assumes "is_pos (fsub64 (Fin 1) (round64 (rho c)))" and "tau_nonneg (numCities st) (tauMatrix st)"
  shows "\<exists>st1. evaporatePheromone64 c st = Ok st1 \<and> numCities st1 = numCities st
           \<and> tau_nonneg (numCities st) (tauMatrix st1)"
proof -
  have sq: "square (numCities st) (tauMatrix st)" using assms(2) by (simp add: tau_nonneg_def)
  from evaporatePheromone64_square[OF sq, of c] obtain m' where
    m': "evaporatePheromone64 c st = Ok (st\<lparr>tauMatrix := m'\<rparr>)" "square (numCities st) m'"
      "\<forall>a<numCities st. \<forall>b<numCities st. m' ! a ! b = evap_entry64 c (tauMatrix st ! a ! b)"
    by auto
  have "tau_nonneg (numCities st) m'"
    using m'(2,3) assms by (simp add: tau_nonneg_def fle_evap_entry64)
  with m'(1) show ?thesis by simp
qed

lemma apply_ops64_ok:
  assumes "is_pos (fsub64 (Fin 1) (round64 (rho c)))" and "is_pos (round64 (qval c))"
  shows "numCities st = n \<Longrightarrow> tau_nonneg n (tauMatrix st) \<Longrightarrow> list_all (op_ok c n) ops \<Longrightarrow>
     \<exists>st1. apply_ops64 c st ops = Ok st1 \<and> tau_nonneg n (tauMatrix st1)"
proof (induction ops arbitrary: st)
  case Nil
  then show ?case by simp
next
  case (Cons op ops)
  show ?case
  proof (cases op)
    case Evaporate
    from nonneg_evaporate64[OF assms(1), of st] Cons.prems obtain st1 where
      st1: "evaporatePheromone64 c st = Ok st1" "numCities st1 = n" "tau_nonneg n (tauMatrix st1)"
      by auto
    from Cons.IH[OF st1(2,3)] Cons.prems(3) st1(1) Evaporate show ?thesis by simp
  next
    case (Intensify as)
    let ?st = "st\<lparr>ants := as\<rparr>"
    have "numAnts c \<le> length (ants ?st)" "list_all (ant_ok (numCities ?st)) (ants ?st)"
      "tau_nonneg (numCities ?st) (tauMatrix ?st)"
      using Cons.prems Intensify by simp_all
    from nonneg_intensify64[OF assms(2) this] Cons.prems(1) obtain st1 where
      st1: "intensifyTrail64 c ?st = Ok st1" "numCities st1 = n" "tau_nonneg n (tauMatrix st1)"
      by auto
    from Cons.IH[OF st1(2,3)] Cons.prems(3) st1(1) Intensify show ?thesis by simp
  qed
qed

lemma tau_nonneg_initTrail: "tau_nonneg (numCities st) (tauMatrix (initTrail st))"
  by (simp add: tau_nonneg_def square_initTrail nth_initTrail)

text \<open>
  The source's values as float64: \<open>rho = 0.6\<close> is held as 5404319552844595 / 2^53,
  the factor \<open>1.0 - rho\<close> is 3602879701896397 / 2^53 (a little above 0.4), with no
  rounding in the subtraction, and \<open>qval\<close> is 1.
\<close>

lemma floor_log2_eq:
  assumes "2 powr of_int e \<le> a" and "a < 2 powr (of_int e + 1)"
  shows "\<lfloor>log 2 a\<rfloor> = e"
proof -
  have a: "0 < a" using assms(1) powr_gt_zero[of 2 "of_int e"] by linarith
  have "of_int e \<le> log 2 a" using assms(1) a by (simp add: le_log_iff)
  moreover have "log 2 a < of_int e + 1" using assms(2) a by (simp add: log_less_iff)
  ultimately show ?thesis by linarith
qed

lemma exponent_rho: "\<lfloor>log 2 (6 / 10 :: real)\<rfloor> = - 1"
  using floor_log2_eq[of "-1" "6/10"] by (simp add: powr_minus_divide)

lemma rhe_rho: "rhe ((6 / 10) / (1 / 2 ^ 53)) = 5404319552844595"
proof -
  have "((6 / 10) / (1 / 2 ^ 53) :: real) = 27021597764222976 / 5" by simp
  moreover have "\<lfloor>27021597764222976 / 5 :: real\<rfloor> = 5404319552844595" by simp
  ultimately show ?thesis by (simp add: rhe_def Let_def)
qed

lemma rho64_pos: "round64_pos (6 / 10) = Fin (5404319552844595 / 2 ^ 53)"
proof -
  have e: "max \<lfloor>log 2 (6 / 10 :: real)\<rfloor> (- 1022) = - 1" using exponent_rho by simp
  have u: "(2::real) powr (of_int (- 1) - 52) = 1 / 2 ^ 53" by (simp add: powr_minus_divide)
  have y: "real_of_int 5404319552844595 * (1 / 2 ^ 53) = 5404319552844595 / 2 ^ 53" by simp
  have fin: "\<not> (2::real) ^ 1024 \<le> 5404319552844595 / 2 ^ 53" by simp
  show ?thesis unfolding round64_pos_def Let_def e u rhe_rho y using fin by simp
qed

lemma rho64_defaults: "round64 (rho defaults) = Fin (5404319552844595 / 2 ^ 53)"
proof -
  have "rho defaults = 6 / 10" by (simp add: defaults_def)
  then show ?thesis unfolding round64_def by (simp only: rho64_pos) simp
qed

lemma exponent_decay: "\<lfloor>log 2 (3602879701896397 / 2 ^ 53 :: real)\<rfloor> = - 2"
  using floor_log2_eq[of "-2" "3602879701896397 / 2 ^ 53"] by (simp add: powr_minus_divide)

lemma rhe_decay: "rhe ((3602879701896397 / 2 ^ 53) / (1 / 2 ^ 54)) = 7205759403792794"
proof -
  have "((3602879701896397 / 2 ^ 53) / (1 / 2 ^ 54) :: real) = 7205759403792794" by simp
  moreover have "\<lfloor>7205759403792794 :: real\<rfloor> = 7205759403792794" by simp
  ultimately show ?thesis by (simp add: rhe_def Let_def)
qed

lemma decay64_pos: "round64_pos (3602879701896397 / 2 ^ 53) = Fin (3602879701896397 / 2 ^ 53)"
proof -
  have e: "max \<lfloor>log 2 (3602879701896397 / 2 ^ 53 :: real)\<rfloor> (- 1022) = - 2" using exponent_decay by simp
  have u: "(2::real) powr (of_int (- 2) - 52) = 1 / 2 ^ 54" by (simp add: powr_minus_divide)
  have y: "real_of_int 7205759403792794 * (1 / 2 ^ 54) = 3602879701896397 / 2 ^ 53" by simp
  have fin: "\<not> (2::real) ^ 1024 \<le> 3602879701896397 / 2 ^ 53" by simp
  show ?thesis unfolding round64_pos_def Let_def e u rhe_decay y using fin by simp
qed

lemma decay64_defaults:
  "fsub64 (Fin 1) (round64 (rho defaults)) = Fin (3602879701896397 / 2 ^ 53)"
proof -
  have "(1::real) + - (5404319552844595 / 2 ^ 53) = 3602879701896397 / 2 ^ 53" by simp
  then have "round64 (1 + - (5404319552844595 / 2 ^ 53)) = Fin (3602879701896397 / 2 ^ 53)"
    by (simp only: round64_def decay64_pos) simp
  then show ?thesis by (simp only: rho64_defaults fsub64_def fneg.simps fadd.simps rnd.simps)
qed

lemma qval64_defaults: "round64 (qval defaults) = Fin 1"
proof -
  have e: "max \<lfloor>log 2 (1 :: real)\<rfloor> (- 1022) = 0" by simp
  have u: "(2::real) powr (of_int 0 - 52) = 1 / 2 ^ 52" by (simp add: powr_minus_divide)
  have "\<lfloor>(2::real) ^ 52\<rfloor> = 2 ^ 52" by simp
  then have q: "rhe (1 / (1 / 2 ^ 52)) = 2 ^ 52" by (simp add: rhe_def Let_def)
  have y: "real_of_int (2 ^ 52) * (1 / 2 ^ 52) = 1" by simp
  have "round64_pos 1 = Fin 1" unfolding round64_pos_def Let_def e u q y by simp
  moreover have "qval defaults = 1" by (simp add: defaults_def)
  ultimately show ?thesis unfolding round64_def by simp
qed

lemma decay_defaults:
  "\<exists>m. fsub64 (Fin 1) (round64 (rho defaults)) = Fin m \<and> 38 / 100 \<le> m \<and> m \<le> 42 / 100"
proof -
  have "(38 / 100 :: real) \<le> 3602879701896397 / 2 ^ 53"
    "(3602879701896397 / 2 ^ 53 :: real) \<le> 42 / 100" by simp_all
  with decay64_defaults show ?thesis by blast
qed

lemma decay_defaults_pos: "is_pos (fsub64 (Fin 1) (round64 (rho defaults)))"
  by (simp add: decay64_defaults)

lemma qval_defaults_pos: "is_pos (round64 (qval defaults))"
  by (simp add: qval64_defaults)

text \<open>
  C8, as the code has it. From an initialised store, every finite sequence of
  evaporations and intensifications runs to its end and leaves no entry of the pheromone
  matrix below 0 (nor NaN). An off-diagonal entry need not stay above 0: the reset to
  1.0 happens only for a product strictly below 0, so an entry that has come down to 0 is
  left at 0. The factor \<open>1.0 - rho\<close> and the deposit \<open>qval\<close>, as the code computes
  them, are finite and above 0, and the ants intensified have tours of city indices and
  tour lengths that are not negative, as \<open>moveAnts\<close> leaves them.
\<close>

theorem C8_store_never_negative:
  assumes "is_pos (fsub64 (Fin 1) (round64 (rho c)))" and "is_pos (round64 (qval c))"
    and "list_all (op_ok c (numCities st)) ops"
  shows "\<exists>st1. apply_ops64 c (initTrail st) ops = Ok st1 \<and>
           (\<forall>i<numCities st. \<forall>j<numCities st. fle (Fin 0) (tauMatrix st1 ! i ! j))"
proof -
  have "numCities (initTrail st) = numCities st" by (simp add: initTrail_def)
  moreover have "tau_nonneg (numCities st) (tauMatrix (initTrail st))" by (rule tau_nonneg_initTrail)
  ultimately obtain st1 where "apply_ops64 c (initTrail st) ops = Ok st1"
    "tau_nonneg (numCities st) (tauMatrix st1)"
    using apply_ops64_ok[OF assms(1,2) _ _ assms(3)] by blast
  then show ?thesis by (auto simp: tau_nonneg_def)
qed

theorem C8_witness:
  "is_pos (fsub64 (Fin 1) (round64 (rho defaults))) \<and> is_pos (round64 (qval defaults))
   \<and> list_all (op_ok defaults (numCities (initGraph two_cities (start_state (rng_of [] [])))))
        [Intensify (replicate 10 sample_ant), Evaporate, Evaporate, Intensify (replicate 10 sample_ant)]
   \<and> (\<exists>st1. apply_ops64 defaults (initTrail (initGraph two_cities (start_state (rng_of [] []))))
          [Intensify (replicate 10 sample_ant), Evaporate, Evaporate, Intensify (replicate 10 sample_ant)] = Ok st1
        \<and> (\<forall>i<numCities (initGraph two_cities (start_state (rng_of [] []))).
            \<forall>j<numCities (initGraph two_cities (start_state (rng_of [] []))).
              fle (Fin 0) (tauMatrix st1 ! i ! j)))"
  using C8_store_never_negative [of defaults "initGraph two_cities (start_state (rng_of [] []))"
      "[Intensify (replicate 10 sample_ant), Evaporate, Evaporate, Intensify (replicate 10 sample_ant)]"]
    decay_defaults_pos qval_defaults_pos
  by (simp add: defaults_def ant_ok_def sample_ant_def list_all_iff)

text \<open>
  Repeated evaporation with the source's \<open>rho = 0.6\<close>: each call leaves at most half of
  an entry, up to the rounding of the last place. After 1080 calls the entry 1.0 is at
  most 2^(-1080) + 2^(-1074), its product with \<open>1.0 - rho\<close> is below 2^(-1075), and
  the next call leaves exactly 0; from 0 the entry does not move.
\<close>

lemma evap_entry64_halves:
  assumes "0 \<le> t" and "t \<le> 2"
  shows "\<exists>y. evap_entry64 defaults (Fin t) = Fin y \<and> 0 \<le> y \<and> y \<le> t / 2 + 1 / 2 ^ 1075"
proof -
  have small: "(1::real) / 2 ^ 53 \<le> 1 / 1000" by simp
  obtain m where m: "fsub64 (Fin 1) (round64 (rho defaults)) = Fin m" "38 / 100 \<le> m" "m \<le> 42 / 100"
    using decay_defaults by auto
  have p0: "0 \<le> t * m" using assms(1) m(2) by simp
  have p1: "t * m \<le> t * (42 / 100)" using assms(1) m(3) by (rule mult_left_mono[rotated])
  then have "t * m \<le> 2 ^ 1023" using assms(2) by simp
  with p0 obtain y where y: "round64 (t * m) = Fin y" "0 \<le> y"
    "\<bar>y - t * m\<bar> \<le> t * m / 2 ^ 53 + 1 / 2 ^ 1075"
    using round64_err[of "t * m"] by auto
  have "t * m / 2 ^ 53 = t * m * (1 / 2 ^ 53)" by simp
  also have "\<dots> \<le> t * m * (1 / 1000)" using small p0 by (intro mult_left_mono) auto
  finally have "y \<le> t / 2 + 1 / 2 ^ 1075" using y(3) p1 assms(1) by linarith
  moreover have "evap_entry64 defaults (Fin t) = Fin y"
    using m(1) y(1,2) by (simp add: evap_entry64_def fmul64_def Let_def)
  ultimately show ?thesis using y(2) by simp
qed

lemma evap_entry64_zero: "evap_entry64 defaults (Fin 0) = Fin 0"
proof -
  obtain m where m: "fsub64 (Fin 1) (round64 (rho defaults)) = Fin m"
    using decay_defaults by auto
  then show ?thesis by (simp add: evap_entry64_def fmul64_def Let_def round64_def)
qed

lemma evap_iter_bound:
  "\<exists>t. (evap_entry64 defaults ^^ k) (Fin 1) = Fin t \<and> 0 \<le> t \<and> t \<le> 1 / 2 ^ k + 2 / 2 ^ 1075"
proof (induction k)
  case 0
  then show ?case by simp
next
  case (Suc k)
  then obtain t where t: "(evap_entry64 defaults ^^ k) (Fin 1) = Fin t" "0 \<le> t"
    "t \<le> 1 / 2 ^ k + 2 / 2 ^ 1075" by auto
  have "(1::real) / 2 ^ k \<le> 1" by (simp add: divide_le_eq_1)
  moreover have "(2::real) / 2 ^ 1075 \<le> 1" by simp
  ultimately have "t \<le> 2" using t(3) by linarith
  with t(2) obtain y where y: "evap_entry64 defaults (Fin t) = Fin y" "0 \<le> y"
    "y \<le> t / 2 + 1 / 2 ^ 1075"
    using evap_entry64_halves by blast
  have "y \<le> 1 / 2 ^ Suc k + 2 / 2 ^ 1075" using y(3) t(3) by simp
  with y t(1) show ?case by simp
qed

lemma evap_1081: "(evap_entry64 defaults ^^ 1081) (Fin 1) = Fin 0"
proof -
  obtain t where t: "(evap_entry64 defaults ^^ 1080) (Fin 1) = Fin t" "0 \<le> t"
    "t \<le> 1 / 2 ^ 1080 + 2 / 2 ^ 1075"
    using evap_iter_bound[of 1080] by auto
  obtain m where m: "fsub64 (Fin 1) (round64 (rho defaults)) = Fin m" "38 / 100 \<le> m" "m \<le> 42 / 100"
    using decay_defaults by auto
  have p0: "0 \<le> t * m" using t(2) m(2) by simp
  have "t * m \<le> t * (42 / 100)" using t(2) m(3) by (rule mult_left_mono[rotated])
  also have "\<dots> \<le> (1 / 2 ^ 1080 + 2 / 2 ^ 1075) * (42 / 100)" using t(3) by simp
  also have "\<dots> < 1 / 2 ^ 1075" by simp
  finally have "round64 (t * m) = Fin 0" using p0 by (simp add: round64_small)
  then have "evap_entry64 defaults (Fin t) = Fin 0"
    using m(1) by (simp add: evap_entry64_def fmul64_def Let_def)
  moreover have "(evap_entry64 defaults ^^ 1081) (Fin 1)
      = evap_entry64 defaults ((evap_entry64 defaults ^^ 1080) (Fin 1))"
  proof -
    have "(1081::nat) = Suc 1080" by simp
    then show ?thesis by (simp only: funpow.simps o_apply)
  qed
  ultimately show ?thesis using t(1) by simp
qed

lemma evap_zero_iter: "(evap_entry64 defaults ^^ j) (Fin 0) = Fin 0"
  by (induction j) (simp_all add: evap_entry64_zero)

lemma evap_1100: "(evap_entry64 defaults ^^ 1100) (Fin 1) = Fin 0"
proof -
  have "(1100::nat) = 19 + 1081" by simp
  then have "(evap_entry64 defaults ^^ 1100) (Fin 1)
      = (evap_entry64 defaults ^^ 19) ((evap_entry64 defaults ^^ 1081) (Fin 1))"
    by (simp only: funpow_add o_apply)
  then show ?thesis by (simp only: evap_1081 evap_zero_iter)
qed

lemma square_map: "square n m \<Longrightarrow> square n (map (map g) m)"
  by (simp add: square_def list_all_iff)

lemma apply_ops64_evaporations:
  "square (numCities st) (tauMatrix st) \<Longrightarrow>
     apply_ops64 c st (replicate k Evaporate) =
       Ok (st\<lparr>tauMatrix := map (map (evap_entry64 c ^^ k)) (tauMatrix st)\<rparr>)"
proof (induction k arbitrary: st)
  case 0
  then show ?case by (simp add: map_idI)
next
  case (Suc k)
  let ?st1 = "st\<lparr>tauMatrix := map (map (evap_entry64 c)) (tauMatrix st)\<rparr>"
  have e: "evaporatePheromone64 c st = Ok ?st1" using Suc.prems by (rule evaporatePheromone64_map)
  have "square (numCities ?st1) (tauMatrix ?st1)" using Suc.prems by (simp add: square_map)
  from Suc.IH[OF this] have "apply_ops64 c ?st1 (replicate k Evaporate) =
      Ok (st\<lparr>tauMatrix := map (map (evap_entry64 c ^^ k \<circ> evap_entry64 c)) (tauMatrix st)\<rparr>)"
    by simp
  then show ?case using e by (simp add: funpow_Suc_right del: funpow.simps)
qed

text \<open>
  C8, the claim refuted. The claim: after any finite sequence of evaporate and intensify
  calls every off-diagonal entry of the pheromone matrix is above 0, the clamp preventing
  a collapse to zero. With the source's values, 1100 calls of \<open>evaporatePheromone\<close>
  on the initialised store of two cities leave the entry \<open>tauMatrix[0][1]\<close> at exactly
  0: the products underflow, and 0 is not below 0, so the clamp does not act.
\<close>

theorem C8_counterexample:
  "rbind (apply_ops64 defaults (initTrail (initGraph two_cities (start_state (rng_of [] []))))
      (replicate 1100 Evaporate)) (\<lambda>st. idx2 (tauMatrix st) 0 1)
     = Ok (Fin 0)
   \<and> \<not> flt (Fin 0) (Fin 0)"
  by (simp add: apply_ops64_evaporations square_def evap_1100 idx2_def idx_def)

subsection \<open>Tours: facts\<close>

lemma select_loop_Ok:
  "select_loop fuel c st ant from denom to r = Ok (to', r') \<Longrightarrow>
     to' < length (tabulist ant) \<and> tabulist ant ! to' = 0 \<and> to' \<noteq> from"
proof (induction fuel arbitrary: to r)
  case 0
  then show ?case by simp
next
  case (Suc fuel)
  show ?case
  proof (cases "from \<noteq> to \<and> to < length (tabulist ant) \<and> tabulist ant ! to = 0")
    case True
    show ?thesis
    proof (cases "to' = to")
      case True
      with \<open>from \<noteq> to \<and> to < length (tabulist ant) \<and> tabulist ant ! to = 0\<close> show ?thesis by simp
    next
      case False
      with True Suc.prems obtain to1 r1 where
        "select_loop fuel c st ant from denom to1 r1 = Ok (to', r')"
        by (auto simp: rbind_Ok_iff idx_def Let_def rand_Float64_def split: if_splits)
      then show ?thesis by (rule Suc.IH)
    qed
  next
    case False
    with Suc.prems obtain to1 where
      "select_loop fuel c st ant from denom to1 r = Ok (to', r')"
      by (auto simp: rbind_Ok_iff idx_def split: if_splits)
    then show ?thesis by (rule Suc.IH)
  qed
qed

lemma close_tour_Ok:
  assumes "close_tour st ant = Ok a2"
  shows "tabulist a2 = tabulist ant" and "tour a2 = tour ant" and "tourIndex a2 = tourIndex ant"
    and "nextCity a2 = nextCity ant" and "currentCity a2 = currentCity ant"
  using assms
  by (cases "tourIndex ant = numCities st"; auto simp: close_tour_def rbind_Ok_iff)+

lemma advance_Ok:
  assumes "advance st ant to = Ok a'"
  shows "tabulist a' = (tabulist ant)[to := 1]" and "tour a' = (tour ant)[tourIndex ant := to]"
    and "tourIndex a' = tourIndex ant + 1" and "currentCity a' = to"
    and "to < length (tabulist ant)" and "tourIndex ant < length (tour ant)"
proof -
  from assms obtain tabu1 tour1 x a2 where
    u1: "upd (tabulist ant) to 1 = Ok tabu1" and u2: "upd (tour ant) (tourIndex ant) to = Ok tour1"
    and cl: "close_tour st (ant\<lparr>nextCity := to, tabulist := tabu1, tour := tour1,
                  tourIndex := tourIndex ant + 1, tourlength := x\<rparr>) = Ok a2"
    and a': "a' = a2\<lparr>currentCity := nextCity a2\<rparr>"
    unfolding advance_def rbind_Ok_iff by auto
  note C = close_tour_Ok[OF cl]
  from u1 u2 C a' show "tabulist a' = (tabulist ant)[to := 1]"
    and "tour a' = (tour ant)[tourIndex ant := to]"
    and "tourIndex a' = tourIndex ant + 1" and "currentCity a' = to"
    and "to < length (tabulist ant)" and "tourIndex ant < length (tour ant)"
    by (simp_all add: upd_Ok_iff)
qed

lemma goToNewCity_inv:
  assumes "goToNewCity fuel c st (a, r) = Ok (a', r')" and "ant_inv n k a"
  shows "ant_inv n (Suc k) a'"
proof -
  from assms(1) obtain denom to where
    sel: "select_loop fuel c st a (currentCity a) denom 0 r = Ok (to, r')"
    and adv: "advance st a to = Ok a'"
    by (auto simp: goToNewCity_def rbind_Ok_iff split: prod.splits)
  from select_loop_Ok[OF sel] have to: "to < length (tabulist a)" "tabulist a ! to = 0" by auto
  note A = advance_Ok[OF adv]
  have len: "length (tabulist a) = n" "length (tour a) = n" "tourIndex a = k"
    and dist: "distinct (take k (tour a))"
    and st: "set (take k (tour a)) = {v. v < n \<and> tabulist a ! v \<noteq> 0}"
    using assms(2) by (auto simp: ant_inv_def)
  have k: "k < n" using A(6) len by simp
  have tk: "take (Suc k) (tour a') = take k (tour a) @ [to]"
    using A(2) len k by (simp add: take_Suc_conv_app_nth)
  have notin: "to \<notin> set (take k (tour a))" using st to by simp
  have "{v. v < n \<and> tabulist a' ! v \<noteq> 0} = insert to {v. v < n \<and> tabulist a ! v \<noteq> 0}"
    using A(1) to len by (auto simp: nth_list_update)
  then show ?thesis
    using A len k tk dist notin st by (simp add: ant_inv_def)
qed

lemma move_ant_inv:
  "move_ant fuel c st j (a, r) = Ok (a', r') \<Longrightarrow> ant_inv n k a \<Longrightarrow> ant_inv n (k + j) a'"
proof (induction j arbitrary: a r k)
  case 0
  then show ?case by simp
next
  case (Suc j)
  from Suc.prems(1) obtain a1 r1 where
    g: "goToNewCity fuel c st (a, r) = Ok (a1, r1)" and m: "move_ant fuel c st j (a1, r1) = Ok (a', r')"
    by (auto simp: rbind_Ok_iff)
  from Suc.IH[OF m goToNewCity_inv[OF g Suc.prems(2)]] show ?case by simp
qed

lemma ant_inv_full:
  assumes "ant_inv n n a"
  shows "distinct (tour a) \<and> set (tour a) = {0..<n}"
proof -
  from assms have l: "length (tour a) = n" and d0: "distinct (take n (tour a))"
    and s0: "set (take n (tour a)) = {v. v < n \<and> tabulist a ! v \<noteq> 0}"
    unfolding ant_inv_def by blast+
  have full: "take n (tour a) = tour a" using l by simp
  have d: "distinct (tour a)" using d0 unfolding full .
  have s1: "set (tour a) = {v. v < n \<and> tabulist a ! v \<noteq> 0}" using s0 unfolding full .
  have s: "set (tour a) \<subseteq> {0..<n}" unfolding s1 by auto
  have "card (set (tour a)) = n" using d l by (simp add: distinct_card)
  then have "set (tour a) = {0..<n}" using s by (simp add: card_subset_eq)
  with d show ?thesis by simp
qed

lemma new_ants_inv:
  "new_ants k n r = Ok (as, r') \<Longrightarrow> list_all (ant_inv n 0) as"
proof (induction k arbitrary: r as r')
  case 0
  then show ?case by simp
next
  case (Suc k)
  from Suc.prems obtain s r1 as1 r2 where
    rec: "new_ants k n r1 = Ok (as1, r2)"
    and as: "as = \<lparr>tabulist = replicate n 0, currentCity = s, nextCity = 0, tour = replicate n 0,
          tourIndex = 0, tourlength = Fin 0\<rparr> # as1"
    by (auto simp: rbind_Ok_iff split: prod.splits)
  from Suc.IH[OF rec] as show ?case by (simp add: ant_inv_def)
qed

lemma move_all_inv:
  "move_all fuel c st as r = Ok (as', r') \<Longrightarrow> list_all (ant_inv (numCities st) 0) as \<Longrightarrow>
     list_all (ant_inv (numCities st) (numCities st)) as'"
proof (induction as arbitrary: r as')
  case Nil
  then show ?case by simp
next
  case (Cons a as)
  from Cons.prems(1) obtain a1 r1 rest1 where
    m: "move_ant fuel c st (numCities st) (a, r) = Ok (a1, r1)"
    and ms: "move_all fuel c st as r1 = Ok (rest1, r')" and eq: "as' = a1 # rest1"
    by (auto simp: rbind_Ok_iff split: prod.splits)
  from move_ant_inv[OF m, of "numCities st" 0] Cons.prems(2)
  have "ant_inv (numCities st) (numCities st) a1" by simp
  moreover from Cons.IH[OF ms] Cons.prems(2)
  have "list_all (ant_inv (numCities st) (numCities st)) rest1" by simp
  ultimately show ?case using eq by simp
qed

lemma moveAnts_ant_inv:
  assumes "initAnts c st = Ok st1" and "moveAnts fuel c st1 = Ok st2"
  shows "list_all (ant_inv (numCities st) (numCities st)) (ants st2)"
proof -
  from assms(1) obtain as r where
    n: "new_ants (numAnts c) (numCities st) (rand st) = Ok (as, r)" and
    st1: "st1 = st\<lparr>ants := as, rand := r\<rparr>"
    by (auto simp: initAnts_def rbind_Ok_iff split: prod.splits)
  from assms(2) obtain as' r' where
    m: "move_all fuel c st1 (ants st1) (rand st1) = Ok (as', r')" and st2: "ants st2 = as'"
    by (auto simp: moveAnts_def rbind_Ok_iff split: prod.splits)
  have "list_all (ant_inv (numCities st1) 0) (ants st1)"
    using new_ants_inv[OF n] st1 by simp
  from move_all_inv[OF m this] st1 st2 show ?thesis by simp
qed

text \<open>
  C9. Every tour that \<open>moveAnts\<close> produces from freshly initialised ants is a
  permutation of the city indices \<open>0 .. numCities - 1\<close>: its entries are distinct and are
  exactly these indices.
\<close>

theorem C9_tour_is_permutation:
  assumes "initAnts c st = Ok st1" and "moveAnts fuel c st1 = Ok st2" and "a \<in> set (ants st2)"
  shows "distinct (tour a) \<and> set (tour a) = {0..<numCities st} \<and> length (tour a) = numCities st"
proof -
  have inv: "ant_inv (numCities st) (numCities st) a"
    using moveAnts_ant_inv[OF assms(1,2)] assms(3) by (simp add: list_all_iff)
  then have "length (tour a) = numCities st" by (simp add: ant_inv_def)
  with ant_inv_full[OF inv] show ?thesis by simp
qed

subsection \<open>The tour length: facts\<close>

lemma close_tour_length:
  "close_tour st ant = Ok a2 \<Longrightarrow>
     tourlength a2 =
       (if tourIndex ant = numCities st
        then fadd (tourlength ant) (adjMatrix st ! (tour ant ! (numCities st - 1)) ! (tour ant ! 0))
        else tourlength ant)"
  by (cases "tourIndex ant = numCities st")
    (auto simp: close_tour_def rbind_Ok_iff idx_Ok_iff idx2_Ok_iff)

lemma advance_length:
  assumes "advance st ant to = Ok a'"
  shows "tourlength a' =
     (if tourIndex ant + 1 = numCities st
      then fadd (fadd (tourlength ant) (adjMatrix st ! currentCity ant ! to))
             (adjMatrix st ! ((tour ant)[tourIndex ant := to] ! (numCities st - 1))
                ! ((tour ant)[tourIndex ant := to] ! 0))
      else fadd (tourlength ant) (adjMatrix st ! currentCity ant ! to))"
proof -
  from assms obtain tabu1 tour1 x a2 where
    u2: "upd (tour ant) (tourIndex ant) to = Ok tour1"
    and x: "idx2 (adjMatrix st) (currentCity ant) to = Ok x"
    and cl: "close_tour st (ant\<lparr>nextCity := to, tabulist := tabu1, tour := tour1,
                  tourIndex := tourIndex ant + 1, tourlength := fadd (tourlength ant) x\<rparr>) = Ok a2"
    and a': "a' = a2\<lparr>currentCity := nextCity a2\<rparr>"
    unfolding advance_def rbind_Ok_iff by auto
  from close_tour_length[OF cl] a' u2 x show ?thesis
    by (simp add: upd_Ok_iff idx2_Ok_iff)
qed

lemma move_costs_update:
  "k < length t \<Longrightarrow> move_costs adj s (t[k := v]) k = move_costs adj s t k"
  by (auto simp: move_costs_def nth_list_update)

lemma move_costs_Suc:
  "move_costs adj s t (Suc k) =
     move_costs adj s t k @ [adj ! (if k = 0 then s else t ! (k - 1)) ! (t ! k)]"
  by (cases k) (auto simp: move_costs_def)

lemma goToNewCity_length_inv:
  assumes g: "goToNewCity fuel c st (a, r) = Ok (a', r')"
    and inv: "length_inv (adjMatrix st) s (numCities st) k a" and k: "k < numCities st"
  shows "length_inv (adjMatrix st) s (numCities st) (Suc k) a'"
proof -
  define n where "n = numCities st"
  define adj where "adj = adjMatrix st"
  from g obtain denom to where adv: "advance st a to = Ok a'"
    by (auto simp: goToNewCity_def rbind_Ok_iff split: prod.splits)
  note A = advance_Ok[OF adv]
  have I: "tourIndex a = k" "length (tour a) = n"
    "currentCity a = (if k = 0 then s else tour a ! (k - 1))"
    "tourlength a = foldl fadd (Fin 0) (move_costs adj s (tour a) k)"
    using inv k by (auto simp: length_inv_def n_def adj_def)
  have kn: "k < n" using k by (simp add: n_def)
  have t': "tour a' = (tour a)[k := to]" using A(2) I(1) by simp
  have same: "move_costs adj s (tour a') k = move_costs adj s (tour a) k"
    unfolding t' using kn I(2) by (simp add: move_costs_update)
  have cur: "(if k = 0 then s else tour a' ! (k - 1)) = currentCity a"
    using I(3) t' kn I(2) by (auto simp: nth_list_update)
  have tok: "tour a' ! k = to" using t' kn I(2) by simp
  have costs: "move_costs adj s (tour a') (Suc k) =
      move_costs adj s (tour a) k @ [adj ! currentCity a ! to]"
    unfolding move_costs_Suc same cur tok ..
  have base: "fadd (tourlength a) (adj ! currentCity a ! to) =
      foldl fadd (Fin 0) (move_costs adj s (tour a') (Suc k))"
    unfolding costs I(4) by simp
  have len: "tourlength a' =
      (if Suc k = n
       then fadd (foldl fadd (Fin 0) (move_costs adj s (tour a') (Suc k)))
              (adj ! (tour a' ! (n - 1)) ! (tour a' ! 0))
       else foldl fadd (Fin 0) (move_costs adj s (tour a') (Suc k)))"
    using advance_length[OF adv] I(1) base t' by (simp add: n_def adj_def)
  have "tourIndex a' = Suc k" "length (tour a') = n" "currentCity a' = tour a' ! (Suc k - 1)"
    using A I tok by simp_all
  with len show ?thesis
    unfolding length_inv_def n_def[symmetric] adj_def[symmetric] by simp
qed

lemma move_ant_length_inv:
  "move_ant fuel c st j (a, r) = Ok (a', r') \<Longrightarrow>
     length_inv (adjMatrix st) s (numCities st) k a \<Longrightarrow> k + j \<le> numCities st \<Longrightarrow>
     length_inv (adjMatrix st) s (numCities st) (k + j) a'"
proof (induction j arbitrary: a r k)
  case 0
  then show ?case by simp
next
  case (Suc j)
  from Suc.prems(1) obtain a1 r1 where
    g: "goToNewCity fuel c st (a, r) = Ok (a1, r1)" and m: "move_ant fuel c st j (a1, r1) = Ok (a', r')"
    by (auto simp: rbind_Ok_iff)
  have "k < numCities st" using Suc.prems(3) by simp
  from goToNewCity_length_inv[OF g Suc.prems(2) this]
  have "length_inv (adjMatrix st) s (numCities st) (Suc k) a1" .
  from Suc.IH[OF m this] Suc.prems(3) show ?case by simp
qed

lemma new_ants_length_inv:
  "new_ants k n r = Ok (as, r') \<Longrightarrow> list_all (\<lambda>a. length_inv adj (currentCity a) n 0 a) as"
proof (induction k arbitrary: r as r')
  case 0
  then show ?case by simp
next
  case (Suc k)
  from Suc.prems obtain s r1 as1 r2 where
    rec: "new_ants k n r1 = Ok (as1, r2)"
    and as: "as = \<lparr>tabulist = replicate n 0, currentCity = s, nextCity = 0, tour = replicate n 0,
          tourIndex = 0, tourlength = Fin 0\<rparr> # as1"
    by (auto simp: rbind_Ok_iff split: prod.splits)
  from Suc.IH[OF rec] as show ?case by (auto simp: length_inv_def move_costs_def)
qed

lemma move_all_length_inv:
  "move_all fuel c st as r = Ok (as', r') \<Longrightarrow>
     list_all (\<lambda>a. length_inv (adjMatrix st) (currentCity a) (numCities st) 0 a) as \<Longrightarrow>
     list_all2 (\<lambda>a a'. length_inv (adjMatrix st) (currentCity a) (numCities st) (numCities st) a') as as'"
proof (induction as arbitrary: r as')
  case Nil
  then show ?case by simp
next
  case (Cons a as)
  from Cons.prems(1) obtain a1 r1 rest1 where
    m: "move_ant fuel c st (numCities st) (a, r) = Ok (a1, r1)"
    and ms: "move_all fuel c st as r1 = Ok (rest1, r')" and eq: "as' = a1 # rest1"
    by (auto simp: rbind_Ok_iff split: prod.splits)
  have "length_inv (adjMatrix st) (currentCity a) (numCities st) 0 a" using Cons.prems(2) by simp
  from move_ant_length_inv[OF m this]
  have "length_inv (adjMatrix st) (currentCity a) (numCities st) (numCities st) a1" by simp
  moreover from Cons.IH[OF ms] Cons.prems(2)
  have "list_all2 (\<lambda>a a'. length_inv (adjMatrix st) (currentCity a) (numCities st) (numCities st) a')
      as rest1" by simp
  ultimately show ?case using eq by simp
qed

text \<open>
  What \<open>moveAnts\<close> leaves as the tour length of ant \<open>i\<close>, for every run that returns: the
  cost of the edge from the ant's start city to the first city of its tour, then the costs
  of the edges between consecutive cities of the tour, then the closing edge.
\<close>

lemma tourlength_after_moveAnts:
  assumes "initAnts c st = Ok st1" and "moveAnts fuel c st1 = Ok st2"
    and "i < length (ants st2)" and "0 < numCities st"
  shows "tourlength (ants st2 ! i) =
     fadd (foldl fadd (Fin 0)
            (adjMatrix st ! currentCity (ants st1 ! i) ! (tour (ants st2 ! i) ! 0) #
             map (\<lambda>j. adjMatrix st ! (tour (ants st2 ! i) ! j) ! (tour (ants st2 ! i) ! (j + 1)))
               [0..<numCities st - 1]))
       (adjMatrix st ! (tour (ants st2 ! i) ! (numCities st - 1)) ! (tour (ants st2 ! i) ! 0))"
proof -
  from assms(1) obtain as r where
    n: "new_ants (numAnts c) (numCities st) (rand st) = Ok (as, r)" and
    st1: "st1 = st\<lparr>ants := as, rand := r\<rparr>"
    by (auto simp: initAnts_def rbind_Ok_iff split: prod.splits)
  from assms(2) obtain as' r' where
    m: "move_all fuel c st1 (ants st1) (rand st1) = Ok (as', r')" and st2: "ants st2 = as'"
    by (auto simp: moveAnts_def rbind_Ok_iff split: prod.splits)
  have "list_all (\<lambda>a. length_inv (adjMatrix st1) (currentCity a) (numCities st1) 0 a) (ants st1)"
    using new_ants_length_inv[OF n] st1 by simp
  from move_all_length_inv[OF m this] st1 st2
  have "list_all2 (\<lambda>a a'. length_inv (adjMatrix st) (currentCity a) (numCities st) (numCities st) a')
      (ants st1) (ants st2)" by simp
  then have "length_inv (adjMatrix st) (currentCity (ants st1 ! i)) (numCities st) (numCities st)
      (ants st2 ! i)"
    using assms(3) by (simp add: list_all2_conv_all_nth)
  then show ?thesis using assms(4) by (simp add: length_inv_def move_costs_def)
qed

text \<open>The length of the claim: the same sum without the edge from the start city.\<close>

lemma cycle_length_split:
  assumes "0 < length t"
  shows "cycle_length adj t =
     fadd (foldl fadd (Fin 0) (map (\<lambda>j. adj ! (t ! j) ! (t ! (j + 1))) [0..<length t - 1]))
       (adj ! (t ! (length t - 1)) ! (t ! 0))"
proof -
  obtain m where m: "length t = Suc m" using assms by (cases "length t") auto
  have eq: "map (\<lambda>k. adj ! (t ! k) ! (t ! (Suc k mod Suc m))) [0..<m] =
      map (\<lambda>j. adj ! (t ! j) ! (t ! Suc j)) [0..<m]"
    by (rule map_cong) auto
  show ?thesis by (simp add: cycle_length_def m eq)
qed

subsection \<open>A run on two cities\<close>

lemma adj_two [simp]:
  "adjMatrix (initTrail (initGraph two_cities st)) = [[Fin 0, Fin (sqrt 2)], [Fin (sqrt 2), Fin 0]]"
  by (simp add: initTrail_def initGraph_def two_cities_def upt_2 calEdge_eq)

lemma score_unit: "0 < b \<Longrightarrow> alpha c \<noteq> 0 \<Longrightarrow> beta c \<noteq> 0 \<Longrightarrow>
  score c (Fin 1) (Fin b) = Fin ((1 / b) powr beta c)"
  by (simp add: score_def)

lemma st_two_simps [simp]:
  "numCities st_two = 2"
  "tauMatrix st_two = [[Fin 0, Fin 1], [Fin 1, Fin 0]]"
  "adjMatrix st_two = [[Fin 0, Fin (sqrt 2)], [Fin (sqrt 2), Fin 0]]"
  "rand st_two = rng_of [] []"
  "ants st_two = []"
  "besttour st_two = None"
  by (simp_all add: st_two_def) (simp_all add: initTrail_def initGraph_def start_state_def)

lemma small_simps [simp]:
  "numAnts small = 1" "times_n small = 2" "tours small = 1" "rho small = 6 / 10"
  "qval small = 1" "alpha small = 8 / 10" "beta small = 8 / 10"
  by (simp_all add: small_def defaults_def)

lemma rng_simps [simp]:
  "floats (rng_of [] []) = (\<lambda>k. 0)" "ints (rng_of [] []) = (\<lambda>k. 0)"
  "fpos (rng_of [] []) = 0" "ipos (rng_of [] []) = 0"
  by (simp_all add: rng_of_def)

lemma defaults_simps [simp]:
  "numAnts defaults = 10" "times_n defaults = 10" "tours defaults = 500" "rho defaults = 6 / 10"
  "qval defaults = 1" "alpha defaults = 8 / 10" "beta defaults = 8 / 10"
  by (simp_all add: defaults_def)

lemmas eval_defs = initAnts_def rand_Intn_def goToNewCity_def upt_2 idx_def idx2_def upd_def
  upd2_def score_def numeral_2_eq_2 next_to_def rand_Float64_def advance_def close_tour_def
  moveAnts_def

lemma initAnts_small:
  "initAnts small st_two = Ok (st_two\<lparr>ants := [fresh_ant], rand := rng_of [] []\<lparr>ipos := 1\<rparr>\<rparr>)"
  by (simp add: eval_defs fresh_ant_def)

lemma moveAnts_small:
  "moveAnts 2 small (st_two\<lparr>ants := [fresh_ant], rand := rng_of [] []\<lparr>ipos := 1\<rparr>\<rparr>) =
     Ok (st_two\<lparr>ants := [done_ant], rand := rng_of [] []\<lparr>ipos := 1, fpos := 2\<rparr>,
          currentIndex := 2\<rparr>)"
  by (simp add: eval_defs fresh_ant_def done_ant_def)

theorem C9_witness:
  "initAnts small st_two = Ok (st_two\<lparr>ants := [fresh_ant], rand := rng_of [] []\<lparr>ipos := 1\<rparr>\<rparr>)
   \<and> moveAnts 2 small (st_two\<lparr>ants := [fresh_ant], rand := rng_of [] []\<lparr>ipos := 1\<rparr>\<rparr>) =
       Ok (st_two\<lparr>ants := [done_ant], rand := rng_of [] []\<lparr>ipos := 1, fpos := 2\<rparr>,
            currentIndex := 2\<rparr>)
   \<and> done_ant \<in> set (ants (st_two\<lparr>ants := [done_ant],
         rand := rng_of [] []\<lparr>ipos := 1, fpos := 2\<rparr>, currentIndex := 2\<rparr>))
   \<and> distinct (tour done_ant) \<and> set (tour done_ant) = {0..<numCities st_two}
   \<and> length (tour done_ant) = numCities st_two"
  using C9_tour_is_permutation [OF initAnts_small moveAnts_small, of done_ant]
    initAnts_small moveAnts_small
  by simp

text \<open>
  C3. The claim: the tour length of an ant is the sum of the costs of the edges between
  consecutive cities of its tour plus the closing edge. The code also adds the cost of the
  edge from the ant's random start city, which is not part of the tour, to the first city
  of the tour. On the cities \<open>(0, 0)\<close> and \<open>(1, 1)\<close>, at distance \<open>sqrt 2\<close>, with the
  source's parameters, every ant starts at city 0, makes the tour \<open>[1, 0]\<close>, and has
  tour length \<open>3 * sqrt 2\<close>; the tour's two edges cost \<open>2 * sqrt 2\<close>.
\<close>

theorem C3_tourlength_counts_start_edge:
  "rbind (rbind (initAnts defaults st_two) (moveAnts 2 defaults))
     (\<lambda>st. Ok (map (\<lambda>a. (tour a, tourlength a, cycle_length (adjMatrix st) (tour a))) (ants st)))
   = Ok (replicate 10 ([1, 0], Fin (3 * sqrt 2), Fin (2 * sqrt 2)))
   \<and> Fin (3 * sqrt 2) \<noteq> Fin (2 * sqrt 2)"
  by (simp add: eval_defs eval_nat_numeral cycle_length_def)

subsection \<open>The statistics of a round\<close>

lemma calculateAvg_eq:
  "ants st \<noteq> [] \<Longrightarrow>
     calculateAvg c st =
       Ok (fdiv (foldl fadd (Fin 0) (map tourlength (ants st))) (Fin (real (times_n c))))"
  by (simp add: calculateAvg_def idx_def)

text \<open>
  The mean that \<open>calculateAvg\<close> returns is the mean over the ants when the number of
  experiments \<open>times\<close> happens to be the number of ants, as with the source's values
  (both 10).
\<close>

lemma calculateAvg_mean_when_times_is_population:
  "ants st \<noteq> [] \<Longrightarrow> times_n c = length (ants st) \<Longrightarrow>
     calculateAvg c st =
       Ok (fdiv (foldl fadd (Fin 0) (map tourlength (ants st))) (Fin (real (length (ants st)))))"
  by (simp add: calculateAvg_eq)

lemma copy_slice_same_length: "length dst = length src \<Longrightarrow> copy_slice dst src = src"
  by (simp add: copy_slice_def)

text \<open>
  \<open>calculateBest\<close> forgets the rounds before: as soon as one ant of the round is
  shorter than the round's first ant, the tour it leaves in \<open>besttour\<close> does not depend on
  the tour that was there.
\<close>

lemma best_loop_forgets:
  assumes "\<exists>a\<in>set as. flt (tourlength a) bl"
    and "\<forall>a\<in>set as. length (tour a) = n" and "length bt = n" and "length bt' = n"
  shows "best_loop as bl bt = best_loop as bl bt'"
  using assms
proof (induction as arbitrary: bl bt bt')
  case Nil
  then show ?case by simp
next
  case (Cons a as)
  show ?case
  proof (cases "flt (tourlength a) bl")
    case True
    have "copy_slice bt (tour a) = tour a" "copy_slice bt' (tour a) = tour a"
      using Cons.prems(2,3,4) by (simp_all add: copy_slice_same_length)
    with True show ?thesis by simp
  next
    case False
    with Cons.prems(1) have "\<exists>a\<in>set as. flt (tourlength a) bl" by auto
    from Cons.IH[OF this _ Cons.prems(3,4)] Cons.prems(2) False show ?thesis by simp
  qed
qed

lemma calculateBest_forgets_earlier_rounds:
  assumes "\<exists>a\<in>set (ants st). flt (tourlength a) (tourlength (ants st ! 0))"
    and "\<forall>a\<in>set (ants st). length (tour a) = numCities st"
    and "length bt = numCities st" and "length bt' = numCities st"
  shows "rbind (calculateBest c (st\<lparr>besttour := Some bt\<rparr>)) (\<lambda>(b, st1). Ok (b, besttour st1)) =
         rbind (calculateBest c (st\<lparr>besttour := Some bt'\<rparr>)) (\<lambda>(b, st1). Ok (b, besttour st1))"
proof -
  from assms(1) have "ants st \<noteq> []" by auto
  then have "idx (ants st) 0 = Ok (ants st ! 0)" by (simp add: idx_def)
  moreover have "best_loop (ants st) (tourlength (ants st ! 0)) bt =
      best_loop (ants st) (tourlength (ants st ! 0)) bt'"
    using assms by (rule best_loop_forgets)
  ultimately show ?thesis by (simp add: calculateBest_def split_def)
qed

text \<open>
  C7. The claim: the mean tour length of a round is the sum of the ants' tour lengths
  divided by the number of ants. \<open>calculateAvg\<close> divides by \<open>times\<close>, the number of
  experiments. With one ant and two experiments (\<open>small\<close>), the round on two cities
  has one ant of tour length \<open>3 * sqrt 2\<close>, and \<open>calculateAvg\<close> returns half of it.
\<close>

theorem C7_calculateAvg_divides_by_times:
  "rbind (rbind (initAnts small st_two) (moveAnts 2 small))
     (\<lambda>st. rbind (calculateAvg small st) (\<lambda>avg.
        Ok (map tourlength (ants st), length (ants st), avg)))
   = Ok ([Fin (3 * sqrt 2)], 1, Fin (3 * sqrt 2 / 2))
   \<and> Fin (3 * sqrt 2 / 1) \<noteq> Fin (3 * sqrt 2 / 2)"
  by (simp add: eval_defs calculateAvg_def)

subsection \<open>The run: facts\<close>

lemma experiments_pass_start:
  "experiments fuel c k st = Ok (st', ss) \<Longrightarrow> pass_start fuel c k st = Ok st'"
proof (induction k arbitrary: st ss)
  case 0
  then show ?case by simp
next
  case (Suc k)
  from Suc.prems obtain st1 s ss1 where
    "one_experiment fuel c st = Ok (st1, s)" "experiments fuel c k st1 = Ok (st', ss1)"
    by (auto simp: rbind_Ok_iff split: prod.splits)
  with Suc.IH show ?case by simp
qed

lemma pass_start_Suc_Ok:
  "pass_start fuel c (Suc k) st = Ok st' \<longleftrightarrow>
     (\<exists>st1 s. pass_start fuel c k st = Ok st1 \<and> one_experiment fuel c st1 = Ok (st', s))"
proof (induction k arbitrary: st)
  case 0
  show ?case by (auto simp: rbind_Ok_iff)
next
  case (Suc k)
  have "pass_start fuel c (Suc (Suc k)) st = Ok st' \<longleftrightarrow>
      (\<exists>st1 s. one_experiment fuel c st = Ok (st1, s) \<and> pass_start fuel c (Suc k) st1 = Ok st')"
    by (auto simp: rbind_Ok_iff)
  also have "\<dots> \<longleftrightarrow> (\<exists>st1 s st2 s2. one_experiment fuel c st = Ok (st1, s) \<and>
      pass_start fuel c k st1 = Ok st2 \<and> one_experiment fuel c st2 = Ok (st', s2))"
    unfolding Suc.IH by blast
  also have "\<dots> \<longleftrightarrow> (\<exists>st2 s2. pass_start fuel c (Suc k) st = Ok st2 \<and>
      one_experiment fuel c st2 = Ok (st', s2))"
    by (auto simp: rbind_Ok_iff)
  finally show ?case .
qed

text \<open>
  When \<open>main\<close> returns, every pass of its outer loop has begun: \<open>pass_start\<close> is
  defined for each of them, and the last one is the state that \<open>main\<close> leaves.
\<close>

lemma pass_start_prefix:
  "pass_start fuel c (k + j) st = Ok st' \<Longrightarrow> \<exists>st1. pass_start fuel c k st = Ok st1"
proof (induction j arbitrary: st')
  case 0
  then show ?case by simp
next
  case (Suc j)
  from Suc.prems have "pass_start fuel c (Suc (k + j)) st = Ok st'" by simp
  then obtain st1 where "pass_start fuel c (k + j) st = Ok st1"
    unfolding pass_start_Suc_Ok by blast
  then show ?case by (rule Suc.IH)
qed

lemma main_run_pass_start:
  assumes "main_run fuel c cs r = Ok (st, ss)" and "k \<le> times_n c"
  shows "pass_start fuel c (times_n c) (initTrail (initGraph cs (start_state r))) = Ok st"
    and "\<exists>st1. pass_start fuel c k (initTrail (initGraph cs (start_state r))) = Ok st1"
proof -
  show last: "pass_start fuel c (times_n c) (initTrail (initGraph cs (start_state r))) = Ok st"
    using assms(1) unfolding main_run_def by (rule experiments_pass_start)
  from assms(2) obtain j where "times_n c = k + j" by (auto simp: le_iff_add)
  with last show "\<exists>st1. pass_start fuel c k (initTrail (initGraph cs (start_state r))) = Ok st1"
    using pass_start_prefix[of fuel c k j] by simp
qed

lemma initAnts_keeps:
  "initAnts c st = Ok st1 \<Longrightarrow> tauMatrix st1 = tauMatrix st \<and> numCities st1 = numCities st"
  by (auto simp: initAnts_def rbind_Ok_iff)

lemma moveAnts_keeps:
  "moveAnts fuel c st = Ok st1 \<Longrightarrow> tauMatrix st1 = tauMatrix st \<and> numCities st1 = numCities st"
  by (auto simp: moveAnts_def rbind_Ok_iff)

lemma calculateBest_keeps:
  "calculateBest c st = Ok (b, st1) \<Longrightarrow> tauMatrix st1 = tauMatrix st \<and> numCities st1 = numCities st"
  by (auto simp: calculateBest_def rbind_Ok_iff Let_def split_def)

lemma intensify_edges_square:
  "intensify_edges c st i m ks = Ok m' \<Longrightarrow> square n m \<Longrightarrow> square n m'"
proof (induction ks arbitrary: m)
  case Nil
  then show ?case by simp
next
  case (Cons k ks)
  from Cons.prems(1) obtain f t v w where
    m2: "intensify_edges c st i
       ((m[f := (m ! f)[t := v]])[t := ((m[f := (m ! f)[t := v]]) ! t)[f := w]]) ks = Ok m'"
    and f: "f < length m" and t: "t < length (m[f := (m ! f)[t := v]])"
    by (auto simp: rbind_Ok_iff idx2_Ok_iff upd2_Ok_iff Let_def)
  have fn: "f < n" and tn: "t < n" using f t Cons.prems(2) by (simp_all add: square_length)
  have "square n (m[f := (m ! f)[t := v]])" using Cons.prems(2) fn by (rule square_update)
  then have "square n ((m[f := (m ! f)[t := v]])[t := ((m[f := (m ! f)[t := v]]) ! t)[f := w]])"
    using tn by (rule square_update)
  with Cons.IH[OF m2] show ?case .
qed

lemma intensify_ants_square:
  "intensify_ants c st m js = Ok m' \<Longrightarrow> square n m \<Longrightarrow> square n m'"
proof (induction js arbitrary: m)
  case Nil
  then show ?case by simp
next
  case (Cons i js)
  from Cons.prems(1) obtain m1 where
    "intensify_edges c st i m [0..<numCities st] = Ok m1" "intensify_ants c st m1 js = Ok m'"
    by (auto simp: rbind_Ok_iff)
  with Cons.IH intensify_edges_square Cons.prems(2) show ?case by blast
qed

lemma intensifyTrail_keeps:
  "intensifyTrail c st = Ok st1 \<Longrightarrow> square n (tauMatrix st) \<Longrightarrow>
     square n (tauMatrix st1) \<and> numCities st1 = numCities st"
  by (auto simp: intensifyTrail_def rbind_Ok_iff dest: intensify_ants_square)

lemma rounds_square:
  "rounds fuel c k st bl al = Ok (st', bl', al') \<Longrightarrow> square (numCities st) (tauMatrix st) \<Longrightarrow>
     square (numCities st') (tauMatrix st') \<and> numCities st' = numCities st"
proof (induction k arbitrary: st bl al)
  case 0
  then show ?case by simp
next
  case (Suc k)
  from Suc.prems(1) obtain st1 st2 st3 b st4 a where
    s: "initAnts c st = Ok st1" "moveAnts fuel c st1 = Ok st2" "intensifyTrail c st2 = Ok st3"
      "calculateBest c st3 = Ok (b, st4)"
      "rounds fuel c k st4 (fadd bl b) (fadd al a) = Ok (st', bl', al')"
    by (auto simp: rbind_Ok_iff split: prod.splits)
  have k2: "tauMatrix st2 = tauMatrix st" "numCities st2 = numCities st"
    using initAnts_keeps[OF s(1)] moveAnts_keeps[OF s(2)] by simp_all
  have "square (numCities st) (tauMatrix st2)" using Suc.prems(2) k2 by simp
  from intensifyTrail_keeps[OF s(3) this]
  have k3: "square (numCities st) (tauMatrix st3)" "numCities st3 = numCities st"
    using k2 by simp_all
  have k4: "tauMatrix st4 = tauMatrix st3" "numCities st4 = numCities st"
    using calculateBest_keeps[OF s(4)] k3 by simp_all
  have "square (numCities st4) (tauMatrix st4)" using k3 k4 by simp
  from Suc.IH[OF s(5) this] k4 show ?case by auto
qed

text \<open>What a pass of the outer loop does to the store, when it ends.\<close>

lemma one_experiment_store:
  assumes "one_experiment fuel c st = Ok (st1, s)" and "square (numCities st) (tauMatrix st)"
  shows "\<exists>st0 bl al.
      rounds fuel c (tours c) (st\<lparr>besttour := None\<rparr>) (Fin 0) (Fin 0) = Ok (st0, bl, al) \<and>
      tauMatrix st1 = map (map (evap_entry c)) (tauMatrix st0) \<and>
      numCities st1 = numCities st \<and> square (numCities st1) (tauMatrix st1)"
proof -
  from assms(1) obtain st0 bl al where
    r: "rounds fuel c (tours c) (st\<lparr>besttour := None\<rparr>) (Fin 0) (Fin 0) = Ok (st0, bl, al)"
    and e: "evaporatePheromone c st0 = Ok st1"
    by (auto simp: one_experiment_def rbind_Ok_iff split: prod.splits)
  have "square (numCities (st\<lparr>besttour := None\<rparr>)) (tauMatrix (st\<lparr>besttour := None\<rparr>))"
    using assms(2) by simp
  from rounds_square[OF r this]
  have sq: "square (numCities st0) (tauMatrix st0)" and n: "numCities st0 = numCities st"
    by auto
  from e have st1: "st1 = st0\<lparr>tauMatrix := map (map (evap_entry c)) (tauMatrix st0)\<rparr>"
    by (simp add: evaporatePheromone_map[OF sq])
  have "square (numCities st1) (tauMatrix st1)"
    using sq st1 by (simp add: square_def list_all_iff)
  with r st1 n show ?thesis by simp
qed

lemma pass_start_square:
  "pass_start fuel c k st = Ok st' \<Longrightarrow> square (numCities st) (tauMatrix st) \<Longrightarrow>
     square (numCities st') (tauMatrix st')"
proof (induction k arbitrary: st)
  case 0
  then show ?case by simp
next
  case (Suc k)
  from Suc.prems(1) obtain st1 s where
    o: "one_experiment fuel c st = Ok (st1, s)" and p: "pass_start fuel c k st1 = Ok st'"
    by (auto simp: rbind_Ok_iff split: prod.splits)
  from one_experiment_store[OF o Suc.prems(2)] have "square (numCities st1) (tauMatrix st1)" by blast
  with Suc.IH[OF p] show ?case .
qed

text \<open>
  C1, as the code has it. \<open>main\<close> calls \<open>initTrail\<close> once, before its outer loop.
  The first experiment begins with the fresh store (1.0 off the diagonal, 0 on it). Every
  later experiment begins with the store that the experiment before it left: the entries
  at the end of that experiment's rounds, each evaporated once. Nothing re-seeds the store
  between experiments.
\<close>

theorem C1_store_seeded_once_per_run:
  assumes "pass_start fuel c k (initTrail (initGraph cs (start_state r))) = Ok st"
  shows "(k = 0 \<longrightarrow>
            tauMatrix st = map (\<lambda>i. map (\<lambda>j. if i \<noteq> j then Fin 1 else Fin 0) [0..<length cs]) [0..<length cs])
       \<and> (0 < k \<longrightarrow>
            (\<exists>st_prev st0 bl al.
               pass_start fuel c (k - 1) (initTrail (initGraph cs (start_state r))) = Ok st_prev \<and>
               rounds fuel c (tours c) (st_prev\<lparr>besttour := None\<rparr>) (Fin 0) (Fin 0) = Ok (st0, bl, al) \<and>
               tauMatrix st = map (map (evap_entry c)) (tauMatrix st0)))"
proof (cases k)
  case 0
  with assms show ?thesis by (auto simp: initTrail_def initGraph_def)
next
  case (Suc j)
  let ?init = "initTrail (initGraph cs (start_state r))"
  from assms obtain st_prev s where
    p: "pass_start fuel c j ?init = Ok st_prev" and o: "one_experiment fuel c st_prev = Ok (st, s)"
    unfolding Suc pass_start_Suc_Ok by blast
  have "square (numCities ?init) (tauMatrix ?init)"
    by (simp add: initTrail_def square_def list_all_iff)
  from pass_start_square[OF p this] have "square (numCities st_prev) (tauMatrix st_prev)" .
  from one_experiment_store[OF o this] p Suc show ?thesis by auto
qed

lemma st_two_eq: "initTrail (initGraph two_cities (start_state (rng_of [] []))) = st_two"
  by (simp add: st_two_def)

lemma sqrt2_pos_sum: "\<not> 4 / (3 * sqrt 2) + 2 < 0"
proof -
  have "0 \<le> 4 / (3 * sqrt 2)" by simp
  then show ?thesis by linarith
qed

lemma sqrt2_not_three: "4 / (3 * sqrt 2) \<noteq> 3"
proof -
  have "1 \<le> sqrt 2" by simp
  then have "4 / (3 * sqrt 2) \<le> 4 / 3"
    by (simp add: field_simps)
  then show ?thesis by linarith
qed

lemma one_experiment_small:
  "one_experiment 2 small st_two =
     Ok (st_after_one,
         \<lparr>optimal_path = Some [1, 0], avgavg = Fin (3 * sqrt 2 / 2), avgbest = Fin (3 * sqrt 2)\<rparr>)"
  by (simp add: one_experiment_def eval_defs intensifyTrail_def calculateBest_def calculateAvg_def
     copy_slice_def evaporatePheromone_def evap_entry_def sqrt2_pos_sum st_after_one_def done_ant_def)

lemma pass_start_small:
  "pass_start 2 small 1 (initTrail (initGraph two_cities (start_state (rng_of [] [])))) = Ok st_after_one"
  by (simp add: st_two_eq one_experiment_small)

theorem C1_witness:
  "pass_start 2 small 1 (initTrail (initGraph two_cities (start_state (rng_of [] [])))) = Ok st_after_one
   \<and> (\<exists>st_prev st0 bl al.
         pass_start 2 small 0 (initTrail (initGraph two_cities (start_state (rng_of [] [])))) = Ok st_prev \<and>
         rounds 2 small (tours small) (st_prev\<lparr>besttour := None\<rparr>) (Fin 0) (Fin 0) = Ok (st0, bl, al) \<and>
         tauMatrix st_after_one = map (map (evap_entry small)) (tauMatrix st0))"
  using C1_store_seeded_once_per_run [OF pass_start_small] pass_start_small
  by simp

theorem C1_counterexample:
  "rbind (pass_start 2 small 1 (initTrail (initGraph two_cities (start_state (rng_of [] [])))))
     (\<lambda>st. idx2 (tauMatrix st) 0 1) = Ok (Fin ((4 / (3 * sqrt 2) + 2) / 5))
   \<and> Fin ((4 / (3 * sqrt 2) + 2) / 5) \<noteq> Fin 1"
  by (simp only: pass_start_small) (simp add: st_after_one_def idx2_def idx_def sqrt2_not_three)

subsection \<open>The selection when the denominator is 0\<close>







text \<open>The scan skips the current city and the cities of the tabu list.\<close>

lemma select_loop_skip:
  assumes "numCities st = n" and "length (tabulist ant) = n" and "Suc j < n"
    and "j = i \<or> tabulist ant ! j \<noteq> 0"
  shows "select_loop (Suc fuel) c st ant i z j r = select_loop fuel c st ant i z (Suc j) r"
  using assms by (auto simp: idx_def next_to_def)

lemma select_loop_reach:
  assumes n: "numCities st = n" "length (tabulist ant) = n" and to: "to < n"
    and skip: "\<forall>k<to. k = i \<or> tabulist ant ! k \<noteq> 0"
  shows "j \<le> to \<Longrightarrow>
     select_loop (to - j + fuel) c st ant i z j r = select_loop fuel c st ant i z to r"
proof (induction "to - j" arbitrary: j)
  case 0
  then show ?case by simp
next
  case (Suc d)
  then have j: "j < to" "d = to - Suc j" by simp_all
  then have "to - j + fuel = Suc (to - Suc j + fuel)" by simp
  moreover have "Suc j < n" "j = i \<or> tabulist ant ! j \<noteq> 0" using j to skip by auto
  ultimately have "select_loop (to - j + fuel) c st ant i z j r =
      select_loop (to - Suc j + fuel) c st ant i z (Suc j) r"
    using select_loop_skip[OF n] by simp
  also have "\<dots> = select_loop fuel c st ant i z to r"
    using Suc.hyps(1)[of "Suc j"] j by simp
  finally show ?case .
qed

lemma first_free_Some:
  assumes "first_free ant i n = Some to"
  shows "to < n" and "to \<noteq> i" and "tabulist ant ! to = 0"
    and "\<forall>k<to. k = i \<or> tabulist ant ! k \<noteq> 0"
  using assms by (auto simp: first_free_def find_Some_iff)


lemma upt_3: "[0..<3] = [0, Suc 0, Suc (Suc 0)]"
  by (simp add: upt_rec numeral_3_eq_3)

lemma st_three_simps [simp]:
  "numCities st_three = 3"
  "tauMatrix st_three = [[Fin 0, Fin 1, Fin 1], [Fin 1, Fin 0, Fin 1], [Fin 1, Fin 1, Fin 0]]"
  "adjMatrix st_three = [[Fin 0, Fin 0, Fin 0], [Fin 0, Fin 0, Fin 0], [Fin 0, Fin 0, Fin 0]]"
  by (simp_all add: st_three_def initTrail_def initGraph_def start_state_def three_same_def
      upt_3 calEdge_eq)





lemma fresh_ant3_simps [simp]:
  "currentCity fresh_ant3 = 0" "tabulist fresh_ant3 = [0, 0, 0]"
  by (simp_all add: fresh_ant3_def)


text \<open>
  With a store of zeros (what one evaporation with \<open>rho = 1.0\<close> leaves, see C5) every
  acceptance value is \<open>0 / 0\<close>, which no draw is below: the scan never ends.
\<close>

lemma select_loop_zero_store:
  "j < 2 \<Longrightarrow> select_loop fuel defaults st_zero fresh_ant 0 (Fin 0) j r = OutOfFuel"
proof (induction fuel arbitrary: j r)
  case 0
  show ?case by simp
next
  case (Suc fuel)
  from Suc.prems have "j = 0 \<or> j = 1" by auto
  then show ?case
  proof
    assume "j = 0"
    then show ?thesis using Suc.IH[of 1 r] by (simp add: next_to_def st_zero_def)
  next
    assume "j = 1"
    then show ?thesis using Suc.IH[of 0]
      by (simp add: next_to_def st_zero_def fresh_ant_def idx_def idx2_def score_def
          rand_Float64_def)
  qed
qed

lemma goToNewCity_zero_store_never_returns:
  "goToNewCity fuel defaults st_zero (fresh_ant, r) = OutOfFuel"
proof -
  have "numCities st_zero = 2" "currentCity fresh_ant = 0"
    by (simp_all add: st_zero_def fresh_ant_def)
  moreover have "denom_loop defaults st_zero fresh_ant 0 (Fin 0) [0..<2] = Ok (Fin 0)"
    by (simp add: upt_2 st_zero_def fresh_ant_def idx_def idx2_def)
  ultimately show ?thesis
    by (simp add: goToNewCity_def select_loop_zero_store)
qed

subsection \<open>The selection when every draw is 0\<close>

lemma row_fin_pos_nth:
  "row_fin_pos m i n \<Longrightarrow> j < n \<Longrightarrow> j \<noteq> i \<Longrightarrow> \<exists>v. m ! i ! j = Fin v \<and> 0 < v"
  by (cases "m ! i ! j") (auto simp: row_fin_pos_def list_all_iff)

lemma score_fin_pos: "0 < t \<Longrightarrow> 0 < a \<Longrightarrow> \<exists>s. score c (Fin t) (Fin a) = Fin s \<and> 0 < s"
  by (auto simp: score_def)

lemma denom_loop_fin_pos:
  assumes n: "numCities st = n" "square n (tauMatrix st)" "square n (adjMatrix st)"
      "length (tabulist ant) = n" "i < n"
    and rows: "row_fin_pos (tauMatrix st) i n" "row_fin_pos (adjMatrix st) i n"
  shows "set tos \<subseteq> {..<n} \<Longrightarrow> 0 \<le> d \<Longrightarrow>
     \<exists>z. denom_loop c st ant i (Fin d) tos = Ok (Fin z) \<and> d \<le> z \<and>
       ((\<exists>to\<in>set tos. to \<noteq> i \<and> tabulist ant ! to = 0) \<longrightarrow> d < z)"
proof (induction tos arbitrary: d)
  case Nil
  then show ?case by simp
next
  case (Cons to tos)
  have to: "to < n" using Cons.prems(1) by simp
  have sub: "set tos \<subseteq> {..<n}" using Cons.prems(1) by simp
  show ?case
  proof (cases "to \<noteq> i \<and> tabulist ant ! to = 0")
    case True
    from row_fin_pos_nth[OF rows(1) to] True obtain t where
      t: "tauMatrix st ! i ! to = Fin t" "0 < t" by auto
    from row_fin_pos_nth[OF rows(2) to] True obtain a where
      a: "adjMatrix st ! i ! to = Fin a" "0 < a" by auto
    from score_fin_pos[OF t(2) a(2), of c] obtain s where
      s: "score c (Fin t) (Fin a) = Fin s" "0 < s" by auto
    have step: "denom_loop c st ant i (Fin d) (to # tos) = denom_loop c st ant i (Fin (d + s)) tos"
      using True to n t a s by (simp add: idx_def idx2_square)
    have "0 \<le> d + s" using Cons.prems(2) s(2) by simp
    from Cons.IH[OF sub this] obtain z where
      "denom_loop c st ant i (Fin (d + s)) tos = Ok (Fin z)" "d + s \<le> z" by auto
    with step s(2) show ?thesis by (intro exI[of _ z]) auto
  next
    case False
    have step: "denom_loop c st ant i (Fin d) (to # tos) = denom_loop c st ant i (Fin d) tos"
      using False to n by (auto simp: idx_def idx2_square)
    from Cons.IH[OF sub Cons.prems(2)] obtain z where
      "denom_loop c st ant i (Fin d) tos = Ok (Fin z)" "d \<le> z"
      "(\<exists>to\<in>set tos. to \<noteq> i \<and> tabulist ant ! to = 0) \<longrightarrow> d < z" by auto
    with step False show ?thesis by (intro exI[of _ z]) auto
  qed
qed

text \<open>
  With a finite positive store and finite positive costs, a draw of 0 is below the
  acceptance value of every candidate: \<open>goToNewCity\<close> takes the first city in index
  order that is neither the current one nor visited.
\<close>

lemma goToNewCity_draw_zero:
  assumes sq: "square (numCities st) (tauMatrix st)" "square (numCities st) (adjMatrix st)"
    and len: "length (tabulist ant) = numCities st" "currentCity ant < numCities st"
    and rows: "row_fin_pos (tauMatrix st) (currentCity ant) (numCities st)"
      "row_fin_pos (adjMatrix st) (currentCity ant) (numCities st)"
    and ff: "first_free ant (currentCity ant) (numCities st) = Some to"
    and fuel: "to < fuel" and draw: "floats r (fpos r) = 0"
  shows "goToNewCity fuel c st (ant, r) =
           rbind (advance st ant to) (\<lambda>ant1. Ok (ant1, r\<lparr>fpos := Suc (fpos r)\<rparr>))"
proof -
  define n where "n = numCities st"
  define i where "i = currentCity ant"
  note F = first_free_Some[OF ff, folded n_def i_def]
  have n: "numCities st = n" "square n (tauMatrix st)" "square n (adjMatrix st)"
      "length (tabulist ant) = n" "i < n"
    using sq len by (simp_all add: n_def i_def)
  have rows': "row_fin_pos (tauMatrix st) i n" "row_fin_pos (adjMatrix st) i n"
    using rows by (simp_all add: n_def i_def)
  have "set [0..<n] \<subseteq> {..<n}" "(0::real) \<le> 0" by auto
  from denom_loop_fin_pos[OF n rows' this, of c] F(1,2,3) obtain z where
    z: "denom_loop c st ant i (Fin 0) [0..<n] = Ok (Fin z)" "0 < z" by auto
  from row_fin_pos_nth[OF rows'(1) F(1,2)] obtain t where
    t: "tauMatrix st ! i ! to = Fin t" "0 < t" by auto
  from row_fin_pos_nth[OF rows'(2) F(1,2)] obtain a where
    a: "adjMatrix st ! i ! to = Fin a" "0 < a" by auto
  from score_fin_pos[OF t(2) a(2), of c] obtain s where
    s: "score c (Fin t) (Fin a) = Fin s" "0 < s" by auto
  obtain k where k: "fuel = Suc to + k" using fuel by (metis less_iff_Suc_add add_Suc)
  have "select_loop fuel c st ant i (Fin z) 0 r = select_loop (Suc k) c st ant i (Fin z) to r"
    using select_loop_reach[OF n(1,4) F(1,4), of 0 "Suc k" c "Fin z" r] k by simp
  also have "\<dots> = Ok (to, r\<lparr>fpos := Suc (fpos r)\<rparr>)"
    using F n t a s z(2) draw by (simp add: idx_def idx2_square rand_Float64_def)
  finally have "select_loop fuel c st ant i (Fin z) 0 r = Ok (to, r\<lparr>fpos := Suc (fpos r)\<rparr>)" .
  with z(1) show ?thesis by (simp add: goToNewCity_def n_def i_def)
qed

lemma goToNewCity_draw_zero_the:
  assumes "square (numCities st) (tauMatrix st)" "square (numCities st) (adjMatrix st)"
    and "length (tabulist ant) = numCities st" "currentCity ant < numCities st"
    and "row_fin_pos (tauMatrix st) (currentCity ant) (numCities st)"
      "row_fin_pos (adjMatrix st) (currentCity ant) (numCities st)"
    and "first_free ant (currentCity ant) (numCities st) \<noteq> None"
    and "the (first_free ant (currentCity ant) (numCities st)) < fuel"
    and "floats r (fpos r) = 0"
  shows "goToNewCity fuel c st (ant, r) =
           rbind (advance st ant (the (first_free ant (currentCity ant) (numCities st))))
             (\<lambda>ant1. Ok (ant1, r\<lparr>fpos := Suc (fpos r)\<rparr>))"
  using assms goToNewCity_draw_zero[of st ant "the (first_free ant (currentCity ant) (numCities st))" fuel r c]
  by auto

subsection \<open>A run on four cities\<close>

lemma upt_4: "[0..<4] = [0, Suc 0, Suc (Suc 0), Suc (Suc (Suc 0))]"
  by (simp add: upt_rec eval_nat_numeral)

lemma st_four_simps [simp]:
  "numCities st_four = 4"
  "tauMatrix st_four = [[Fin 0, Fin 1, Fin 1, Fin 1], [Fin 1, Fin 0, Fin 1, Fin 1],
      [Fin 1, Fin 1, Fin 0, Fin 1], [Fin 1, Fin 1, Fin 1, Fin 0]]"
  "adjMatrix st_four = [[Fin 0, Fin (sqrt 2 * 2), Fin (sqrt 2), Fin (sqrt 2 * 3)],
      [Fin (sqrt 2 * 2), Fin 0, Fin (sqrt 2), Fin (sqrt 2)],
      [Fin (sqrt 2), Fin (sqrt 2), Fin 0, Fin (sqrt 2 * 2)],
      [Fin (sqrt 2 * 3), Fin (sqrt 2), Fin (sqrt 2 * 2), Fin 0]]"
  "rand st_four = rng_of [] [0, 0, 3, 2]"
  "besttour st_four = None"
  by (simp_all add: st_four_def initTrail_def initGraph_def start_state_def four_cities_def
      upt_4 calEdge_abs)

lemma two_by_two_simps [simp]:
  "numAnts two_by_two = 2" "times_n two_by_two = 10" "tours two_by_two = 2"
  "rho two_by_two = 6 / 10" "qval two_by_two = 1" "alpha two_by_two = 8 / 10"
  "beta two_by_two = 8 / 10"
  by (simp_all add: two_by_two_def defaults_def)

lemma rng_of_simps [simp]:
  "floats (rng_of [] ns) = (\<lambda>k. 0)" "fpos (rng_of fs ns) = 0" "ipos (rng_of fs ns) = 0"
  "ints (rng_of fs ns) = (\<lambda>k. if k < length ns then ns ! k else 0)"
  by (simp_all add: rng_of_def)

lemma rbind_cong: "(\<And>x. f x = g x) \<Longrightarrow> rbind m f = rbind m g"
  by (cases m) auto

lemma move_ant_4:
  "move_ant fuel c st 4 ar =
     rbind (goToNewCity fuel c st ar) (\<lambda>a1.
     rbind (goToNewCity fuel c st a1) (\<lambda>a2.
     rbind (goToNewCity fuel c st a2) (\<lambda>a3.
     rbind (goToNewCity fuel c st a3) Ok)))"
proof -
  have "move_ant fuel c st (Suc (Suc (Suc (Suc 0)))) ar =
     rbind (goToNewCity fuel c st ar) (\<lambda>a1.
     rbind (goToNewCity fuel c st a1) (\<lambda>a2.
     rbind (goToNewCity fuel c st a2) (\<lambda>a3.
     rbind (goToNewCity fuel c st a3) Ok)))"
    by (auto intro!: rbind_cong)
  then show ?thesis by (simp add: eval_nat_numeral)
qed

lemma replicate_4: "replicate 4 x = [x, x, x, x]"
  by (simp add: eval_nat_numeral)

lemmas walk_defs = move_ant_4 goToNewCity_draw_zero_the square_def row_fin_pos_def first_free_def
  upt_4 advance_def close_tour_def idx_def idx2_def upd_def

lemma store_entry_pos [simp]: "0 < 1 / (4 * sqrt 2) + (1::real)"
proof -
  have "0 \<le> 1 / (4 * sqrt 2)" by simp
  then show ?thesis by linarith
qed

lemma rounds_2:
  "rounds fuel c 2 st bl al =
     rbind (initAnts c st) (\<lambda>st1.
     rbind (moveAnts fuel c st1) (\<lambda>st2.
     rbind (intensifyTrail c st2) (\<lambda>st3.
     rbind (calculateBest c st3) (\<lambda>(b, st4).
     rbind (calculateAvg c st4) (\<lambda>a.
     rbind (initAnts c st4) (\<lambda>st5.
     rbind (moveAnts fuel c st5) (\<lambda>st6.
     rbind (intensifyTrail c st6) (\<lambda>st7.
     rbind (calculateBest c st7) (\<lambda>(b2, st8).
     rbind (calculateAvg c st8) (\<lambda>a2.
     Ok (st8, fadd (fadd bl b) b2, fadd (fadd al a) a2)))))))))))"
  by (simp add: numeral_2_eq_2 split_def)

lemmas round_defs = initAnts_def rand_Intn_def replicate_4 moveAnts_def walk_defs
  intensifyTrail_def upt_2 upd2_def calculateBest_def calculateAvg_def copy_slice_def

lemma first_round_four:
  "rbind (rbind (initAnts two_by_two (st_four\<lparr>besttour := None\<rparr>)) (moveAnts 4 two_by_two))
     (\<lambda>st. Ok (map (\<lambda>a. (tour a, tourlength a)) (ants st)))
   = Ok [([1, 0, 2, 3], Fin (8 * sqrt 2)), ([1, 0, 2, 3], Fin (8 * sqrt 2))]"
  by (simp add: round_defs numeral_2_eq_2)

lemma two_rounds_four:
  "rbind (rounds 4 two_by_two 2 (st_four\<lparr>besttour := None\<rparr>) (Fin 0) (Fin 0))
     (\<lambda>(st, bl, al). Ok (besttour st, map (\<lambda>a. (tour a, tourlength a)) (ants st)))
   = Ok (Some [0, 1, 2, 3], [([0, 1, 2, 3], Fin (11 * sqrt 2)), ([0, 1, 2, 3], Fin (9 * sqrt 2))])"
  by (simp add: rounds_2 round_defs numeral_2_eq_2)

lemma experiment_four:
  "rbind (one_experiment 4 two_by_two st_four) (\<lambda>(st, s). Ok (optimal_path s))
     = Ok (Some [0, 1, 2, 3])"
  by (simp add: one_experiment_def rounds_2 round_defs numeral_2_eq_2 evaporatePheromone_map)

lemma cycle_lengths_four:
  "cycle_length (adjMatrix st_four) [1, 0, 2, 3] = Fin (6 * sqrt 2)"
  "cycle_length (adjMatrix st_four) [0, 1, 2, 3] = Fin (8 * sqrt 2)"
  by (simp_all add: cycle_length_def upt_4)

text \<open>
  C6. The claim: the best tour an experiment reports is the best over all of its rounds.
  \<open>calculateBest\<close> starts every round from the length of that round's first ant, and
  overwrites \<open>besttour\<close> whenever a later ant of the round is shorter than that, without
  comparing with the rounds before. Four cities on a line, two ants, two rounds: both ants
  of round 1 build the tour \<open>[1, 0, 2, 3]\<close> with tour length \<open>8 * sqrt 2\<close>; in round 2
  the first ant has tour length \<open>11 * sqrt 2\<close> and the second \<open>9 * sqrt 2\<close>, both with
  the tour \<open>[0, 1, 2, 3]\<close>, which the experiment reports. The tour of round 1 is
  strictly shorter, by the ants' tour lengths and by the cost of the closed tour.
\<close>

theorem C6_besttour_not_best_of_experiment:
  "rbind (one_experiment 4 two_by_two st_four) (\<lambda>(st, s). Ok (optimal_path s))
     = Ok (Some [0, 1, 2, 3])
   \<and> rbind (rbind (initAnts two_by_two (st_four\<lparr>besttour := None\<rparr>)) (moveAnts 4 two_by_two))
       (\<lambda>st. Ok (map (\<lambda>a. (tour a, tourlength a)) (ants st)))
     = Ok [([1, 0, 2, 3], Fin (8 * sqrt 2)), ([1, 0, 2, 3], Fin (8 * sqrt 2))]
   \<and> rbind (rounds 4 two_by_two 2 (st_four\<lparr>besttour := None\<rparr>) (Fin 0) (Fin 0))
       (\<lambda>(st, bl, al). Ok (besttour st, map (\<lambda>a. (tour a, tourlength a)) (ants st)))
     = Ok (Some [0, 1, 2, 3], [([0, 1, 2, 3], Fin (11 * sqrt 2)), ([0, 1, 2, 3], Fin (9 * sqrt 2))])
   \<and> flt (Fin (8 * sqrt 2)) (Fin (9 * sqrt 2))
   \<and> cycle_length (adjMatrix st_four) [1, 0, 2, 3] = Fin (6 * sqrt 2)
   \<and> cycle_length (adjMatrix st_four) [0, 1, 2, 3] = Fin (8 * sqrt 2)
   \<and> flt (Fin (6 * sqrt 2)) (Fin (8 * sqrt 2))"
  by (simp only: experiment_four first_round_four two_rounds_four cycle_lengths_four) simp

subsection \<open>The ants that intensifyTrail reads\<close>

lemma costs_ok_initGraph: "costs_ok (length cs) (adjMatrix (initGraph cs st))"
  by (simp add: costs_ok_def adjMatrix_initGraph calEdge_eq)

lemma foldl_fadd_nonneg:
  "fle (Fin 0) z \<Longrightarrow> list_all (fle (Fin 0)) xs \<Longrightarrow> fle (Fin 0) (foldl fadd z xs)"
  by (induction xs arbitrary: z) (auto simp: fle_fadd)

lemma new_ants_start:
  "new_ants k n r = Ok (as, r') \<Longrightarrow> list_all (\<lambda>a. currentCity a < n) as"
proof (induction k arbitrary: r as r')
  case 0
  then show ?case by simp
next
  case (Suc k)
  from Suc.prems obtain s r1 as1 r2 where
    s: "rand_Intn r n = Ok (s, r1)" and rec: "new_ants k n r1 = Ok (as1, r2)"
    and as: "as = \<lparr>tabulist = replicate n 0, currentCity = s, nextCity = 0, tour = replicate n 0,
          tourIndex = 0, tourlength = Fin 0\<rparr> # as1"
    by (auto simp: rbind_Ok_iff split: prod.splits)
  from s have "s < n" by (auto simp: rand_Intn_def split: if_splits)
  with Suc.IH[OF rec] as show ?case by simp
qed

lemma new_ants_length: "new_ants k n r = Ok (as, r') \<Longrightarrow> length as = k"
  by (induction k arbitrary: r as r') (auto simp: rbind_Ok_iff split: prod.splits)

lemma move_all_length: "move_all fuel c st as r = Ok (as', r') \<Longrightarrow> length as' = length as"
  by (induction as arbitrary: r as') (auto simp: rbind_Ok_iff split: prod.splits)

text \<open>
  The ants that \<open>moveAnts\<close> leaves are those that \<open>intensifyTrail\<close> can read: there are
  \<open>numAnts\<close> of them, their tours hold city indices, and their tour lengths, sums of
  costs, are at least 0.
\<close>

lemma moveAnts_ants_ok:
  assumes i: "initAnts c st = Ok st1" and m: "moveAnts fuel c st1 = Ok st2"
    and adj: "costs_ok (numCities st) (adjMatrix st)"
  shows "length (ants st2) = numAnts c \<and> list_all (ant_ok (numCities st)) (ants st2)"
proof -
  define n where "n = numCities st"
  from i obtain as r where
    na: "new_ants (numAnts c) n (rand st) = Ok (as, r)" and
    st1: "st1 = st\<lparr>ants := as, rand := r\<rparr>"
    by (auto simp: initAnts_def rbind_Ok_iff n_def split: prod.splits)
  from m obtain as' r' where
    ma: "move_all fuel c st1 (ants st1) (rand st1) = Ok (as', r')" and st2: "ants st2 = as'"
    by (auto simp: moveAnts_def rbind_Ok_iff split: prod.splits)
  have len1: "length (ants st1) = numAnts c" using new_ants_length[OF na] st1 by simp
  have len: "length (ants st2) = numAnts c"
    using move_all_length[OF ma] len1 st2 by simp
  have "ant_ok n (ants st2 ! k)" if k: "k < length (ants st2)" for k
  proof -
    define a where "a = ants st2 ! k"
    define s where "s = currentCity (ants st1 ! k)"
    have "0 < numAnts c" using k len by simp
    then obtain j where "numAnts c = Suc j" by (cases "numAnts c") auto
    with na have npos: "0 < n"
      by (cases "n = 0") (auto simp: rand_Intn_def)
    have "ant_inv n n a"
      using moveAnts_ant_inv[OF i m] k by (simp add: list_all_length n_def a_def)
    from ant_inv_full[OF this] this have t: "set (tour a) = {0..<n}" "length (tour a) = n"
      by (simp_all add: ant_inv_def)
    then have tn: "tour a ! j < n" if "j < n" for j
      using that nth_mem[of j "tour a"] by auto
    have sn: "s < n"
      using new_ants_start[OF na] k len len1 st1 by (simp add: list_all_length s_def)
    have cost: "fle (Fin 0) (adjMatrix st ! x ! y)" if "x < n" "y < n" for x y
      using adj that by (simp add: costs_ok_def n_def)
    have "list_all (fle (Fin 0))
        (adjMatrix st ! s ! (tour a ! 0) #
         map (\<lambda>j. adjMatrix st ! (tour a ! j) ! (tour a ! (j + 1))) [0..<n - 1])"
      using npos sn by (auto simp: list_all_iff intro!: cost tn)
    then have "fle (Fin 0) (foldl fadd (Fin 0)
        (adjMatrix st ! s ! (tour a ! 0) #
         map (\<lambda>j. adjMatrix st ! (tour a ! j) ! (tour a ! (j + 1))) [0..<n - 1]))"
      by (intro foldl_fadd_nonneg) simp_all
    moreover have "fle (Fin 0) (adjMatrix st ! (tour a ! (n - 1)) ! (tour a ! 0))"
      using npos by (intro cost tn) simp_all
    ultimately have "fle (Fin 0) (tourlength a)"
      using tourlength_after_moveAnts[OF i m k] npos
      by (simp add: fle_fadd a_def s_def n_def)
    with t show ?thesis by (auto simp: ant_ok_def list_all_iff a_def)
  qed
  then show ?thesis using len by (simp add: list_all_length n_def)
qed

end
